theory Spec2Isabelle
  imports Main
begin

section \<open>Diff rendering (services/version-diff.ts)\<close>

text \<open>
  JavaScript strings are modelled as \<open>string\<close>; a \<open>char\<close> stands for one code unit
  below 256. The result of the two library calls \<open>dmp.diff_main\<close> and
  \<open>dmp.diff_cleanupSemantic\<close> is a list of pairs (operation, text) with operation
  \<open>1\<close> for an insertion, \<open>-1\<close> for a deletion and \<open>0\<close> for equality.
\<close>

type_synonym Diff = "int \<times> string"

datatype SegmentType = Equal | Insert | Delete

record DiffSegment =
  seg_type :: SegmentType
  seg_text :: string

definition nl :: char where
  "nl = CHR 0x0A"

subsection \<open>String primitives of the runtime\<close>

text \<open>\<open>s.replace(/c/g, rep)\<close> for a single character \<open>c\<close>.\<close>

definition replaceAll :: "char \<Rightarrow> string \<Rightarrow> string \<Rightarrow> string" where
  "replaceAll c rep s = concat (map (\<lambda>x. if x = c then rep else [x]) s)"

text \<open>\<open>s.split(sep)\<close> for a one-character separator: never empty, one more piece than
  there are separators.\<close>

fun split_on :: "char \<Rightarrow> string \<Rightarrow> string list" where
  "split_on sep [] = [[]]"
| "split_on sep (c # cs) =
     (if c = sep then [] # split_on sep cs
      else (case split_on sep cs of [] \<Rightarrow> [[c]] | l # ls \<Rightarrow> (c # l) # ls))"

definition split_nl :: "string \<Rightarrow> string list" where
  "split_nl s = split_on nl s"

text \<open>\<open>lines.join('\n')\<close>.\<close>

fun join_nl :: "string list \<Rightarrow> string" where
  "join_nl [] = []"
| "join_nl [l] = l"
| "join_nl (l # ls) = l @ nl # join_nl ls"

text \<open>
  White space as \<open>String.prototype.trim\<close> sees it, among the code units below 256:
  TAB, LF, VT, FF, CR, SP and NBSP.
\<close>

definition is_ws :: "char \<Rightarrow> bool" where
  "is_ws c = (of_char c \<in> {9, 10, 11, 12, 13, 32, 160 :: nat})"

definition trim :: "string \<Rightarrow> string" where
  "trim s = rev (dropWhile is_ws (rev (dropWhile is_ws s)))"

definition endsWith_nl :: "string \<Rightarrow> bool" where
  "endsWith_nl s = (s \<noteq> [] \<and> last s = nl)"

text \<open>
  \<open>line.replace(/<[^>]+>/g, '')\<close>: at a \<open><\<close>, the longest run of characters other than
  \<open>>\<close> must be non-empty and be followed by a \<open>>\<close>; the match is removed and the scan
  goes on behind it. Otherwise the \<open><\<close> stays.
\<close>

function strip_tags :: "string \<Rightarrow> string" where
  "strip_tags [] = []"
| "strip_tags (c # cs) =
     (if c = CHR ''<'' \<and> takeWhile (\<lambda>x. x \<noteq> CHR ''>'') cs \<noteq> []
          \<and> dropWhile (\<lambda>x. x \<noteq> CHR ''>'') cs \<noteq> []
      then strip_tags (tl (dropWhile (\<lambda>x. x \<noteq> CHR ''>'') cs))
      else c # strip_tags cs)"
  by pat_completeness auto
termination
proof (relation "measure length")
  show "wf (measure length)" by simp
next
  fix c :: char and cs :: string
  have "length (tl (dropWhile (\<lambda>x. x \<noteq> CHR ''>'') cs)) \<le> length cs"
    using length_dropWhile_le [of "\<lambda>x. x \<noteq> CHR ''>''" cs] by simp
  then show "(tl (dropWhile (\<lambda>x. x \<noteq> CHR ''>'') cs), c # cs) \<in> measure length"
    by simp
next
  fix c :: char and cs :: string
  show "(cs, c # cs) \<in> measure length" by simp
qed

subsection \<open>escapeHtml\<close>

definition escapeHtml :: "string \<Rightarrow> string" where
  \<open>escapeHtml t =
     replaceAll (CHR 0x27) ''&#039;''
       (replaceAll (CHR 0x22) ''&quot;''
         (replaceAll (CHR ''>'') ''&gt;''
           (replaceAll (CHR ''<'') ''&lt;''
             (replaceAll (CHR ''&'') ''&amp;'' t))))\<close>

text \<open>The two panes of the result: \<open>left\<close> (old text) and \<open>right\<close> (new text).\<close>

datatype pane = LeftPane | RightPane

definition pane_of :: "pane \<Rightarrow> 'a \<times> 'a \<Rightarrow> 'a" where
  "pane_of p x = (case p of LeftPane \<Rightarrow> fst x | RightPane \<Rightarrow> snd x)"

subsection \<open>computeDiff\<close>

definition segment_of :: "Diff \<Rightarrow> DiffSegment" where
  "segment_of d =
     (if fst d = 1 then \<lparr>seg_type = Insert, seg_text = snd d\<rparr>
      else if fst d = -1 then \<lparr>seg_type = Delete, seg_text = snd d\<rparr>
      else \<lparr>seg_type = Equal, seg_text = snd d\<rparr>)"

text \<open>
  Modelled from the spec: \<open>dmp.diff_main\<close> and \<open>dmp.diff_cleanupSemantic\<close> belong to the
  package diff-match-patch, which is not among the sources of the repository. The spec
  (section 4.2) describes the first as a standard longest-common-subsequence-based text
  diff at character granularity that produces a raw edit script: \<open>lcs_length\<close> is the
  length of a longest common subsequence, \<open>edit_script\<close> the script of single characters
  that keeps such a subsequence, and \<open>diff_main\<close> gathers runs of one operation into
  segments (operation 0 is equality, -1 deletion, 1 insertion).
\<close>

fun lcs_length :: "string \<Rightarrow> string \<Rightarrow> nat" where
  "lcs_length [] ys = 0"
| "lcs_length (x # xs) [] = 0"
| "lcs_length (x # xs) (y # ys) =
     (if x = y then Suc (lcs_length xs ys)
      else max (lcs_length xs (y # ys)) (lcs_length (x # xs) ys))"

text \<open>Modelled from the spec: the raw edit script of \<open>diff_main\<close>, one character a step.\<close>

fun edit_script :: "string \<Rightarrow> string \<Rightarrow> (int \<times> char) list" where
  "edit_script [] ys = map (\<lambda>y. (1, y)) ys"
| "edit_script (x # xs) [] = map (\<lambda>c. (-1, c)) (x # xs)"
| "edit_script (x # xs) (y # ys) =
     (if x = y then (0, x) # edit_script xs ys
      else if lcs_length xs (y # ys) \<ge> lcs_length (x # xs) ys
      then (-1, x) # edit_script xs (y # ys)
      else (1, y) # edit_script (x # xs) ys)"

text \<open>
  Modelled from the spec: a pending equality followed by the pending deleted and inserted
  text, as segments; empty texts give no segment.
\<close>

definition emit :: "string \<Rightarrow> string \<Rightarrow> string \<Rightarrow> Diff list" where
  "emit eq del ins =
     (if eq = [] then [] else [(0, eq)]) @ (if del = [] then [] else [(-1, del)])
     @ (if ins = [] then [] else [(1, ins)])"

text \<open>
  Modelled from the spec: merging of adjacent segments. Neighbouring equalities become
  one segment, and the edits between two equalities become one deletion followed by one
  insertion.
\<close>

fun coalesce :: "string \<Rightarrow> string \<Rightarrow> string \<Rightarrow> Diff list \<Rightarrow> Diff list" where
  "coalesce eq del ins [] = emit eq del ins"
| "coalesce eq del ins (d # ds) =
     (if fst d = 1 then coalesce eq del (ins @ snd d) ds
      else if fst d = -1 then coalesce eq (del @ snd d) ins ds
      else if del = [] \<and> ins = [] then coalesce (eq @ snd d) [] [] ds
      else emit eq del ins @ coalesce (snd d) [] [] ds)"

text \<open>Modelled from the spec: \<open>dmp.diff_main(text1, text2)\<close>.\<close>

definition diff_main :: "string \<Rightarrow> string \<Rightarrow> Diff list" where
  "diff_main text1 text2 = coalesce [] [] [] (map (\<lambda>e. (fst e, [snd e])) (edit_script text1 text2))"

text \<open>
  Modelled from the spec: the numbers of deleted and of inserted characters in the run of
  edits at the head of a script.
\<close>

fun edit_run_lengths :: "Diff list \<Rightarrow> nat \<times> nat" where
  "edit_run_lengths [] = (0, 0)"
| "edit_run_lengths (d # ds) =
     (if fst d = 1 then (fst (edit_run_lengths ds), snd (edit_run_lengths ds) + length (snd d))
      else if fst d = -1 then (fst (edit_run_lengths ds) + length (snd d), snd (edit_run_lengths ds))
      else (0, 0))"

text \<open>
  Modelled from the spec: the semantic cleanup "coalesces adjacent edits separated only
  by short common substrings". An equality that is no longer than the edits before it
  (\<open>db\<close> deleted, \<open>ib\<close> inserted characters) and no longer than the edits after it is
  turned into a deletion and an insertion of the same text, which leaves both texts as
  they are.
\<close>

fun dissolve :: "nat \<Rightarrow> nat \<Rightarrow> Diff list \<Rightarrow> Diff list" where
  "dissolve db ib [] = []"
| "dissolve db ib (d # ds) =
     (if fst d = 1 then d # dissolve db (ib + length (snd d)) ds
      else if fst d = -1 then d # dissolve (db + length (snd d)) ib ds
      else if snd d \<noteq> [] \<and> length (snd d) \<le> max db ib
              \<and> length (snd d) \<le> max (fst (edit_run_lengths ds)) (snd (edit_run_lengths ds))
      then (-1, snd d) # (1, snd d) # dissolve (db + length (snd d)) (ib + length (snd d)) ds
      else d # dissolve 0 0 ds)"

text \<open>Modelled from the spec: \<open>dmp.diff_cleanupSemantic(diffs)\<close>.\<close>

definition diff_cleanupSemantic :: "Diff list \<Rightarrow> Diff list" where
  "diff_cleanupSemantic diffs = coalesce [] [] [] (dissolve 0 0 diffs)"

text \<open>
  computeDiff: the two library calls, then the \<open>map\<close> of lines 19 to 28
  (\<open>segment_of\<close> is its callback).
\<close>

definition computeDiff :: "string \<Rightarrow> string \<Rightarrow> DiffSegment list" where
  "computeDiff oldText newText = map segment_of (diff_cleanupSemantic (diff_main oldText newText))"

text \<open>
  The old and the new text that a script stands for: all segments but the insertions,
  and all segments but the deletions.
\<close>

definition diff_text1 :: "Diff list \<Rightarrow> string" where
  "diff_text1 diffs = concat (map snd (filter (\<lambda>d. fst d \<noteq> 1) diffs))"

definition diff_text2 :: "Diff list \<Rightarrow> string" where
  "diff_text2 diffs = concat (map snd (filter (\<lambda>d. fst d \<noteq> -1) diffs))"

text \<open>
  The concatenation, in order, of the texts of the \<open>equal\<close> and \<open>insert\<close> segments, and of
  the \<open>equal\<close> and \<open>delete\<close> segments.
\<close>

definition newSide :: "DiffSegment list \<Rightarrow> string" where
  "newSide segs =
     concat (map seg_text (filter (\<lambda>s. seg_type s = Equal \<or> seg_type s = Insert) segs))"

definition oldSide :: "DiffSegment list \<Rightarrow> string" where
  "oldSide segs =
     concat (map seg_text (filter (\<lambda>s. seg_type s = Equal \<or> seg_type s = Delete) segs))"

subsection \<open>renderSideBySide\<close>

definition ins_wrap :: "string \<Rightarrow> string" where
  \<open>ins_wrap s = ''<ins class="version-diff-insert">'' @ s @ ''</ins>''\<close>

definition del_wrap :: "string \<Rightarrow> string" where
  \<open>del_wrap s = ''<del class="version-diff-delete">'' @ s @ ''</del>''\<close>

definition fm_wrap :: "string \<Rightarrow> string" where
  \<open>fm_wrap s = ''<span class="version-diff-frontmatter">'' @ s @ ''</span>''\<close>

record render_state =
  leftLines :: "string list"
  rightLines :: "string list"
  currentOld :: string
  currentNew :: string

definition init_state :: render_state where
  "init_state = \<lparr>leftLines = [], rightLines = [], currentOld = [], currentNew = []\<rparr>"

text \<open>The two flushes at the head of the \<open>default\<close> branch, also run after the loop.\<close>

definition flushOld :: "render_state \<Rightarrow> render_state" where
  "flushOld st =
     (if currentOld st \<noteq> []
      then st\<lparr>leftLines := leftLines st @ [del_wrap (escapeHtml (currentOld st))],
              currentOld := []\<rparr>
      else st)"

definition flushNew :: "render_state \<Rightarrow> render_state" where
  "flushNew st =
     (if currentNew st \<noteq> []
      then st\<lparr>rightLines := rightLines st @ [ins_wrap (escapeHtml (currentNew st))],
              currentNew := []\<rparr>
      else st)"

text \<open>
  The body of the inner loop for one piece \<open>line\<close> of \<open>text.split('\n')\<close>;
  \<open>isLast\<close> says whether it is the last piece.
\<close>

definition step_line :: "int \<Rightarrow> string \<Rightarrow> bool \<Rightarrow> string \<Rightarrow> render_state \<Rightarrow> render_state" where
  "step_line ty txt isLast line st =
     (let lineWithNewline = (if isLast then line else line @ [nl]) in
      if ty = 1 then
        (let cur = currentNew st @ lineWithNewline in
         if \<not> isLast \<or> (isLast \<and> endsWith_nl txt)
         then st\<lparr>rightLines := rightLines st @ [escapeHtml cur], currentNew := []\<rparr>
         else st\<lparr>currentNew := cur\<rparr>)
      else if ty = -1 then
        (let cur = currentOld st @ lineWithNewline in
         if \<not> isLast \<or> (isLast \<and> endsWith_nl txt)
         then st\<lparr>leftLines := leftLines st @ [del_wrap (escapeHtml cur)], currentOld := []\<rparr>
         else st\<lparr>currentOld := cur\<rparr>)
      else
        (let st1 = flushNew (flushOld st) in
         st1\<lparr>leftLines := leftLines st1 @ [escapeHtml lineWithNewline],
             rightLines := rightLines st1 @ [escapeHtml lineWithNewline]\<rparr>))"

fun step_lines :: "int \<Rightarrow> string \<Rightarrow> string list \<Rightarrow> render_state \<Rightarrow> render_state" where
  "step_lines ty txt [] st = st"
| "step_lines ty txt [l] st = step_line ty txt True l st"
| "step_lines ty txt (l # ls) st = step_lines ty txt ls (step_line ty txt False l st)"

definition step_diff :: "render_state \<Rightarrow> Diff \<Rightarrow> render_state" where
  "step_diff st d = step_lines (fst d) (snd d) (split_nl (snd d)) st"

text \<open>The lines of both panes after the loop and the final flushes.\<close>

definition renderLines :: "Diff list \<Rightarrow> string list \<times> string list" where
  "renderLines diffs =
     (let st = flushNew (flushOld (foldl step_diff init_state diffs))
      in (leftLines st, rightLines st))"

definition keepLine :: "string \<Rightarrow> bool" where
  "keepLine line = (length (trim line) > 0)"

text \<open>
  markFrontmatter: the callback of \<open>lines.map\<close> with its two captured flags
  \<open>inFrontmatter\<close> and \<open>frontmatterFound\<close> passed along.
\<close>

definition textContent :: "string \<Rightarrow> string" where
  "textContent line = trim (strip_tags line)"

fun markFrom :: "bool \<Rightarrow> bool \<Rightarrow> string list \<Rightarrow> string list" where
  "markFrom inFm found [] = []"
| "markFrom inFm found (line # ls) =
     (if textContent line = ''---'' \<and> \<not> found then fm_wrap line # markFrom True True ls
      else if textContent line = ''---'' \<and> inFm then fm_wrap line # markFrom False found ls
      else if inFm then fm_wrap line # markFrom inFm found ls
      else line # markFrom inFm found ls)"

definition markFrontmatter :: "string list \<Rightarrow> string list" where
  "markFrontmatter ls = markFrom False False ls"

text \<open>
  The pieces \<open>lineWithNewline\<close> that the inner loop forms from the pieces of
  \<open>text.split('\n')\<close>: each but the last gets its line break back.
\<close>

fun withNewlines :: "string list \<Rightarrow> string list" where
  "withNewlines [] = []"
| "withNewlines [l] = [l]"
| "withNewlines (l # ls) = (l @ [nl]) # withNewlines ls"

text \<open>
  renderSideBySide from the diff script on: the code after the two library calls.
  The result is the pair (left, right).
\<close>

definition renderSideBySide :: "Diff list \<Rightarrow> string \<times> string" where
  "renderSideBySide diffs =
     (let (l, r) = renderLines diffs
      in (join_nl (markFrontmatter (filter keepLine l)),
          join_nl (markFrontmatter (filter keepLine r))))"

section \<open>Version storage (services/version-storage.ts)\<close>

subsection \<open>Data (types.ts and the VersionIndex interface)\<close>

record VersionMeta =
  filename :: string
  timestamp :: int
  name :: "string option"
  description :: "string option"
  originalPath :: string

record VersionIndex =
  versions :: "VersionMeta list"
  lastUpdated :: int

text \<open>The fields of the \<open>TFile\<close> argument that the service reads.\<close>

record TFile_arg =
  file_name :: string
  file_path :: string

text \<open>The \<open>updates\<close> argument of updateVersion: \<open>None\<close> is \<open>undefined\<close>.\<close>

record Updates =
  upd_name :: "string option"
  upd_description :: "string option"

subsection \<open>The vault of the host application\<close>

text \<open>
  The text of a file, by what \<open>JSON.parse\<close> makes of it (\<open>JSON.parse\<close> and
  \<open>JSON.stringify(index, null, 2)\<close> belong to the runtime):
  \<^item> \<open>NotJson s\<close> is a text \<open>s\<close> that is not valid JSON; \<open>JSON.parse\<close> throws a
    \<open>SyntaxError\<close> on it;
  \<^item> \<open>IndexJson i\<close> is the text that \<open>JSON.stringify\<close> writes for the index \<open>i\<close>, and
    \<open>JSON.parse\<close> gives \<open>i\<close> back;
  \<^item> \<open>NullJson\<close> is the text \<open>null\<close>, which parses to \<open>null\<close>;
  \<^item> \<open>OtherJson\<close> is a valid JSON text whose value is not \<open>null\<close> and has no property
    \<open>versions\<close> (\<open>{}\<close>, \<open>[]\<close>, a number, a string, a boolean).
  A JSON text whose value has a property \<open>versions\<close> without being an index is not
  represented.
\<close>

datatype filetext = NotJson string | IndexJson VersionIndex | NullJson | OtherJson

text \<open>
  What \<open>JSON.parse(content) as VersionIndex\<close> hands on: the cast checks nothing, so the
  value may be an index, \<open>null\<close>, or a value without \<open>versions\<close>.
\<close>

datatype json_value = JIndex VersionIndex | JNull | JOther

datatype error = AlreadyExists | SyntaxError | TypeError | IOError

datatype node = TFile filetext | TFolder

text \<open>
  What \<open>getAbstractFileByPath(folderPath)\<close> finds at the version folder of the document:
  nothing, a file, or a folder with its children (name and node) in listing order.
\<close>

datatype folder_slot = Absent | FileAt | FolderAt "(string \<times> node) list"

text \<open>
  The part of the vault that the service reaches for one document: the live text of the
  document (the \<open>TFile\<close> argument, taken to lie outside its own version folder) and its
  version folder \<open>storageFolder/nameWithoutExt\<close>, which also holds \<open>versions.json\<close>.
\<close>

record vault =
  doc :: filetext
  folder :: folder_slot

text \<open>
  A call either returns a value or throws; both leave a vault behind. Notices and
  console output are not modelled.
\<close>

datatype 'a outcome = Returns 'a vault | Throws error vault

definition JSON_parse :: "filetext \<Rightarrow> error + json_value" where
  "JSON_parse t =
     (case t of
        NotJson s \<Rightarrow> Inl SyntaxError
      | IndexJson i \<Rightarrow> Inr (JIndex i)
      | NullJson \<Rightarrow> Inr JNull
      | OtherJson \<Rightarrow> Inr JOther)"

definition JSON_stringify :: "VersionIndex \<Rightarrow> filetext" where
  "JSON_stringify i = IndexJson i"

definition indexName :: string where
  "indexName = ''versions.json''"

definition children :: "vault \<Rightarrow> (string \<times> node) list" where
  "children v = (case folder v of FolderAt cs \<Rightarrow> cs | _ \<Rightarrow> [])"

text \<open>\<open>getAbstractFileByPath\<close> of a path inside the version folder.\<close>

definition getChild :: "vault \<Rightarrow> string \<Rightarrow> node option" where
  "getChild v nm = map_of (children v) nm"

text \<open>\<open>vault.createFolder(folderPath)\<close>.\<close>

definition vault_createFolder :: "vault \<Rightarrow> unit outcome" where
  "vault_createFolder v =
     (case folder v of
        Absent \<Rightarrow> Returns () (v\<lparr>folder := FolderAt []\<rparr>)
      | _ \<Rightarrow> Throws AlreadyExists v)"

text \<open>\<open>vault.create(folderPath/nm, data)\<close>: a new last child of the folder.\<close>

definition vault_create :: "vault \<Rightarrow> string \<Rightarrow> filetext \<Rightarrow> unit outcome" where
  "vault_create v nm data =
     (case folder v of
        FolderAt cs \<Rightarrow>
          (if nm \<in> fst ` set cs then Throws AlreadyExists v
           else Returns () (v\<lparr>folder := FolderAt (cs @ [(nm, TFile data)])\<rparr>))
      | _ \<Rightarrow> Throws IOError v)"

text \<open>\<open>vault.modify(file, data)\<close> for a file of the version folder, in place.\<close>

definition vault_modify :: "vault \<Rightarrow> string \<Rightarrow> filetext \<Rightarrow> unit outcome" where
  "vault_modify v nm data =
     (case getChild v nm of
        Some (TFile old) \<Rightarrow>
          Returns () (v\<lparr>folder := FolderAt
            (map (\<lambda>c. if fst c = nm then (nm, TFile data) else c) (children v))\<rparr>)
      | _ \<Rightarrow> Throws IOError v)"

text \<open>\<open>vault.read(file)\<close> for a child of the version folder.\<close>

definition vault_read :: "node \<Rightarrow> error + filetext" where
  "vault_read n = (case n of TFile t \<Rightarrow> Inr t | TFolder \<Rightarrow> Inl IOError)"

subsection \<open>Numbers and strings of the runtime\<close>

fun show_nat :: "nat \<Rightarrow> string" where
  "show_nat n =
     (if n < 10 then [char_of (48 + n)]
      else show_nat (n div 10) @ [char_of (48 + n mod 10)])"

declare show_nat.simps [simp del]

text \<open>
  The template literal \<open>${n}\<close> for an integer, in decimal digits (as for every integer
  below \<open>10^21\<close> in magnitude).
\<close>

definition show_int :: "int \<Rightarrow> string" where
  "show_int i = (if i < 0 then CHR ''-'' # show_nat (nat (- i)) else show_nat (nat i))"

definition startsWith :: "string \<Rightarrow> string \<Rightarrow> bool" where
  "startsWith s p = (take (length p) s = p)"

definition endsWith :: "string \<Rightarrow> string \<Rightarrow> bool" where
  "endsWith s p = (length p \<le> length s \<and> drop (length s - length p) s = p)"

text \<open>\<open>s.replace(pat, '')\<close> with a string pattern: the first occurrence only.\<close>

fun removeFirst :: "string \<Rightarrow> string \<Rightarrow> string" where
  "removeFirst pat [] = []"
| "removeFirst pat (c # cs) =
     (if startsWith (c # cs) pat then drop (length pat) (c # cs)
      else c # removeFirst pat cs)"

text \<open>The value of a digit in the given radix, if it is one.\<close>

definition digit_val :: "nat \<Rightarrow> char \<Rightarrow> nat option" where
  "digit_val radix c =
     (let k = (of_char c :: nat);
          d = (if 48 \<le> k \<and> k \<le> 57 then k - 48
               else if 97 \<le> k \<and> k \<le> 122 then k - 87
               else if 65 \<le> k \<and> k \<le> 90 then k - 55
               else 36)
      in if d < radix then Some d else None)"

definition is_digit :: "nat \<Rightarrow> char \<Rightarrow> bool" where
  "is_digit radix c = (digit_val radix c \<noteq> None)"

definition digits_value :: "nat \<Rightarrow> string \<Rightarrow> int" where
  "digits_value radix ds =
     foldl (\<lambda>acc c. acc * int radix + int (case digit_val radix c of Some d \<Rightarrow> d | None \<Rightarrow> 0)) 0 ds"

text \<open>
  \<open>parseInt(s)\<close> with no radix: leading white space is skipped, then an optional sign,
  then \<open>0x\<close> or \<open>0X\<close> selects radix 16, then the longest run of digits is read; \<open>None\<close> is
  \<open>NaN\<close>. Numbers are exact integers here (no rounding to a double).
\<close>

definition parseInt :: "string \<Rightarrow> int option" where
  "parseInt s =
     (let s1 = dropWhile is_ws s;
          neg = (s1 \<noteq> [] \<and> hd s1 = CHR ''-'');
          s2 = (if s1 \<noteq> [] \<and> (hd s1 = CHR ''-'' \<or> hd s1 = CHR ''+'') then tl s1 else s1);
          hex = (startsWith s2 ''0x'' \<or> startsWith s2 ''0X'');
          radix = (if hex then 16 else 10);
          s3 = (if hex then drop 2 s2 else s2);
          ds = takeWhile (is_digit radix) s3
      in if ds = [] then None
         else Some ((if neg then -1 else 1) * digits_value radix ds))"

subsection \<open>The service\<close>

definition emptyIndex :: VersionIndex where
  "emptyIndex = \<lparr>versions = [], lastUpdated = 0\<rparr>"

text \<open>
  readVersionIndex: the body of the \<open>try\<close> (\<open>Inr None\<close> when the \<open>if\<close> is not taken),
  then the \<open>catch\<close> and the fall-through to the empty index. Whatever \<open>JSON.parse\<close>
  returns is returned from inside the \<open>try\<close>.
\<close>

definition readVersionIndex_try :: "vault \<Rightarrow> error + json_value option" where
  "readVersionIndex_try v =
     (case getChild v indexName of
        Some (TFile t) \<Rightarrow>
          (case vault_read (TFile t) of
             Inl e \<Rightarrow> Inl e
           | Inr content \<Rightarrow>
               (case JSON_parse content of Inl e \<Rightarrow> Inl e | Inr i \<Rightarrow> Inr (Some i)))
      | _ \<Rightarrow> Inr None)"

definition readVersionIndex :: "vault \<Rightarrow> json_value" where
  "readVersionIndex v =
     (case readVersionIndex_try v of
        Inr (Some j) \<Rightarrow> j
      | Inr None \<Rightarrow> JIndex emptyIndex
      | Inl e \<Rightarrow> JIndex emptyIndex)"

definition ensureFolderExists :: "vault \<Rightarrow> unit outcome" where
  "ensureFolderExists v =
     (case folder v of
        FolderAt cs \<Rightarrow> Returns () v
      | FileAt \<Rightarrow> Returns () v
      | Absent \<Rightarrow>
          (case vault_createFolder v of
             Returns u v' \<Rightarrow> Returns () v'
           | Throws e v' \<Rightarrow> if e = AlreadyExists then Returns () v' else Throws e v'))"

text \<open>The \<open>try\<close> block of writeVersionIndex.\<close>

definition writeIndexFile :: "vault \<Rightarrow> VersionIndex \<Rightarrow> unit outcome" where
  "writeIndexFile v index =
     (case getChild v indexName of
        Some (TFile t) \<Rightarrow> vault_modify v indexName (JSON_stringify index)
      | _ \<Rightarrow> vault_create v indexName (JSON_stringify index))"

definition writeVersionIndex :: "vault \<Rightarrow> VersionIndex \<Rightarrow> unit outcome" where
  "writeVersionIndex v index =
     (case ensureFolderExists v of
        Throws e v1 \<Rightarrow> Throws e v1
      | Returns u v1 \<Rightarrow>
          (case writeIndexFile v1 index of
             Returns u' v2 \<Rightarrow> Returns () v2
           | Throws e v2 \<Rightarrow>
               if e = AlreadyExists then
                 (case getChild v2 indexName of
                    Some (TFile t) \<Rightarrow> vault_modify v2 indexName (JSON_stringify index)
                  | _ \<Rightarrow> Throws e v2)
               else Throws e v2))"

text \<open>
  The timestamp that a child's name encodes, as getVersionContent and deleteVersion both
  compute it; \<open>None\<close> when the name is skipped or \<open>parseInt\<close> yields \<open>NaN\<close>.
\<close>

definition fileTimestamp :: "string \<Rightarrow> int option" where
  "fileTimestamp nm =
     (if startsWith nm ''version_'' \<and> endsWith nm ''.md'' then
        (let nameWithoutPrefix = removeFirst ''version_'' nm;
             nameWithoutSuffix = removeFirst ''.md'' nameWithoutPrefix;
             parts = split_on (CHR ''_'') nameWithoutSuffix
         in if length parts \<ge> 2 then parseInt (hd parts) else None)
      else None)"

definition encodes :: "int \<Rightarrow> string \<times> node \<Rightarrow> bool" where
  "encodes t c = (fileTimestamp (fst c) = Some t)"

text \<open>The loop \<open>for (const child of folder.children)\<close> of deleteVersion, up to its \<open>break\<close>.\<close>

fun deleteFirst :: "int \<Rightarrow> (string \<times> node) list \<Rightarrow> (string \<times> node) list" where
  "deleteFirst t [] = []"
| "deleteFirst t (c # cs) = (if encodes t c then cs else c # deleteFirst t cs)"

text \<open>
  Where the service calls a method of \<open>index.versions\<close> or reads its \<open>length\<close>, a value
  that is \<open>null\<close> or has no \<open>versions\<close> makes the access throw a \<open>TypeError\<close>: the
  branches for \<open>JNull\<close> and \<open>JOther\<close> below.
\<close>

text \<open>
  deleteVersion returns nothing; the result is the vault it leaves. A \<open>TypeError\<close> at
  \<open>index.versions.filter\<close> and a throw of writeVersionIndex are caught, and then no
  child is deleted. \<open>vault.delete(child)\<close> is taken to succeed.
\<close>

definition deleteVersion :: "vault \<Rightarrow> int \<Rightarrow> vault" where
  "deleteVersion v t =
     (case readVersionIndex v of
        JIndex index \<Rightarrow>
          (let index' = index\<lparr>versions := filter (\<lambda>m. timestamp m \<noteq> t) (versions index)\<rparr>
           in case writeVersionIndex v index' of
                Throws e v1 \<Rightarrow> v1
              | Returns u v1 \<Rightarrow>
                  (case folder v1 of
                     FolderAt cs \<Rightarrow> v1\<lparr>folder := FolderAt (deleteFirst t cs)\<rparr>
                   | _ \<Rightarrow> v1))
      | _ \<Rightarrow> v)"

text \<open>
  cleanupOldVersions; \<open>maxVersions\<close> is the setting, a natural number (the settings tab
  stores integers above 0 only).
\<close>

definition cleanupOldVersions :: "nat \<Rightarrow> vault \<Rightarrow> unit outcome" where
  "cleanupOldVersions maxVersions v =
     (case readVersionIndex v of
        JIndex index \<Rightarrow>
          Returns ()
            (if length (versions index) > maxVersions
             then foldl deleteVersion v (map timestamp (drop maxVersions (versions index)))
             else v)
      | _ \<Rightarrow> Throws TypeError v)"

text \<open>The metadata record that saveVersion builds.\<close>

definition metaOf :: "TFile_arg \<Rightarrow> int \<Rightarrow> string option \<Rightarrow> string option \<Rightarrow> VersionMeta" where
  "metaOf file now nm descr =
     \<lparr>filename = file_name file, timestamp = now, name = nm,
      description = descr, originalPath = file_path file\<rparr>"

definition versionFilename :: "int \<Rightarrow> nat \<Rightarrow> string" where
  "versionFilename ts vid = ''version_'' @ show_int ts @ ''_'' @ show_nat vid @ ''.md''"

text \<open>
  saveVersion; \<open>now\<close> is the reading of \<open>Date.now()\<close> and \<open>vid\<close> the value of
  \<open>Math.floor(Math.random() * 1000000)\<close>. The unused \<open>versionNumber\<close> and \<open>autoName\<close>
  are left out.
\<close>

definition saveVersion ::
  "nat \<Rightarrow> vault \<Rightarrow> TFile_arg \<Rightarrow> int \<Rightarrow> nat \<Rightarrow> string option \<Rightarrow> string option
   \<Rightarrow> VersionMeta outcome" where
  "saveVersion maxVersions v file now vid nm descr =
     (let content = doc v in
      case ensureFolderExists v of
        Throws e v1 \<Rightarrow> Throws e v1
      | Returns u v1 \<Rightarrow>
          (case vault_create v1 (versionFilename now vid) content of
             Throws e v2 \<Rightarrow> Throws e v2
           | Returns u' v2 \<Rightarrow>
               (case readVersionIndex v2 of
                  JIndex index \<Rightarrow>
                    (let meta = metaOf file now nm descr;
                         index' = index\<lparr>versions := meta # versions index, lastUpdated := now\<rparr>
                     in case writeVersionIndex v2 index' of
                          Throws e v3 \<Rightarrow> Throws e v3
                        | Returns u'' v3 \<Rightarrow>
                            (case cleanupOldVersions maxVersions v3 of
                               Throws e v4 \<Rightarrow> Throws e v4
                             | Returns u3 v4 \<Rightarrow> Returns meta v4))
                | _ \<Rightarrow> Throws TypeError v2)))"

text \<open>
  getVersions returns \<open>index.versions\<close> with no check: the stored sequence (\<open>Some\<close>) for
  an index, \<open>undefined\<close> (\<open>None\<close>) for a value without \<open>versions\<close>, and for \<open>null\<close> the
  property access throws a \<open>TypeError\<close>, outside any \<open>try\<close>.
\<close>

definition getVersions :: "vault \<Rightarrow> VersionMeta list option outcome" where
  "getVersions v =
     (case readVersionIndex v of
        JIndex index \<Rightarrow> Returns (Some (versions index)) v
      | JNull \<Rightarrow> Throws TypeError v
      | JOther \<Rightarrow> Returns None v)"

text \<open>
  getVersionContent: \<open>None\<close> is \<open>null\<close>. The lookup \<open>index.versions.find\<close> stands before
  the \<open>try\<close>, so its \<open>TypeError\<close> is thrown to the caller. The loop returns at the first
  child whose name encodes the timestamp; a failing read of that child is caught and
  gives \<open>null\<close>.
\<close>

definition getVersionContent :: "vault \<Rightarrow> int \<Rightarrow> filetext option outcome" where
  "getVersionContent v t =
     (case readVersionIndex v of
        JIndex index \<Rightarrow>
          Returns
            (case find (\<lambda>m. timestamp m = t) (versions index) of
               None \<Rightarrow> None
             | Some versionMeta \<Rightarrow>
                 (case folder v of
                    FolderAt cs \<Rightarrow>
                      (case find (encodes t) cs of
                         None \<Rightarrow> None
                       | Some child \<Rightarrow>
                           (case vault_read (snd child) of
                              Inl e \<Rightarrow> None
                            | Inr content \<Rightarrow> Some content))
                  | _ \<Rightarrow> None))
            v
      | _ \<Rightarrow> Throws TypeError v)"


text \<open>\<open>findIndex\<close>: the position of the first element that satisfies the test.\<close>

fun findIndex :: "('a \<Rightarrow> bool) \<Rightarrow> 'a list \<Rightarrow> nat option" where
  "findIndex P [] = None"
| "findIndex P (x # xs) =
     (if P x then Some 0 else map_option Suc (findIndex P xs))"

definition applyUpdates :: "Updates \<Rightarrow> VersionMeta \<Rightarrow> VersionMeta" where
  "applyUpdates u version =
     (let v1 = (case upd_name u of Some n \<Rightarrow> version\<lparr>name := Some n\<rparr> | None \<Rightarrow> version)
      in case upd_description u of Some d \<Rightarrow> v1\<lparr>description := Some d\<rparr> | None \<Rightarrow> v1)"

text \<open>
  updateVersion: the returned boolean and the vault it leaves. The two assignments to the
  fields of the entry are \<open>applyUpdates\<close>. The whole body is inside the \<open>try\<close>: a
  \<open>TypeError\<close> at \<open>index.versions.findIndex\<close> and a throw of writeVersionIndex give
  \<open>false\<close>.
\<close>

definition updateVersion :: "vault \<Rightarrow> int \<Rightarrow> Updates \<Rightarrow> bool \<times> vault" where
  "updateVersion v t u =
     (case readVersionIndex v of
        JIndex index \<Rightarrow>
          (case findIndex (\<lambda>m. timestamp m = t) (versions index) of
             None \<Rightarrow> (False, v)
           | Some versionIndex \<Rightarrow>
               (if versionIndex < length (versions index) then
                  (let version = applyUpdates u (versions index ! versionIndex);
                       index' = index\<lparr>versions := (versions index)[versionIndex := version]\<rparr>
                   in case writeVersionIndex v index' of
                        Throws e v1 \<Rightarrow> (False, v1)
                      | Returns u' v1 \<Rightarrow> (True, v1))
                else (False, v)))
      | _ \<Rightarrow> (False, v))"

subsection \<open>Auxiliary definitions for the statements\<close>

text \<open>
  The stored index as the service sees it: the index that readVersionIndex returns, and
  the empty index where it returns a value that is no index.
\<close>

definition storedIndex :: "vault \<Rightarrow> VersionIndex" where
  "storedIndex v = (case readVersionIndex v of JIndex i \<Rightarrow> i | _ \<Rightarrow> emptyIndex)"

text \<open>readVersionIndex returns an index (also the empty one of its fall-through).\<close>

definition indexReadable :: "vault \<Rightarrow> bool" where
  "indexReadable v = (case readVersionIndex v of JIndex i \<Rightarrow> True | _ \<Rightarrow> False)"

text \<open>The vault that cleanupOldVersions leaves when it returns.\<close>

definition evicted :: "nat \<Rightarrow> vault \<Rightarrow> vault" where
  "evicted maxVersions v =
     (if length (versions (storedIndex v)) > maxVersions
      then foldl deleteVersion v (map timestamp (drop maxVersions (versions (storedIndex v))))
      else v)"

text \<open>
  The children of the version folder once writeVersionIndex has returned: the index file
  rewritten in place, or created as the last child.
\<close>

definition putIndex :: "VersionIndex \<Rightarrow> (string \<times> node) list \<Rightarrow> (string \<times> node) list" where
  "putIndex i cs =
     (if indexName \<in> fst ` set cs
      then map (\<lambda>c. if fst c = indexName then (indexName, TFile (IndexJson i)) else c) cs
      else cs @ [(indexName, TFile (IndexJson i))])"

text \<open>The index that deleteVersion writes.\<close>

definition dropTimestamp :: "int \<Rightarrow> VersionIndex \<Rightarrow> VersionIndex" where
  "dropTimestamp t i = i\<lparr>versions := filter (\<lambda>m. timestamp m \<noteq> t) (versions i)\<rparr>"

text \<open>Decimal digits and the number that a string of them denotes.\<close>

definition is_dec :: "char \<Rightarrow> bool" where
  "is_dec c = (48 \<le> (of_char c :: nat) \<and> (of_char c :: nat) \<le> 57)"

definition dec_value :: "string \<Rightarrow> nat" where
  "dec_value ds = foldl (\<lambda>acc c. acc * 10 + (of_char c - 48)) 0 ds"

text \<open>The names of the children of the version folder.\<close>

definition names :: "vault \<Rightarrow> string set" where
  "names v = fst ` set (children v)"

text \<open>
  The index can be read as an index and written: the folder path is not taken by a file,
  the index path is not taken by a folder, and readVersionIndex returns an index.
\<close>

definition writable :: "vault \<Rightarrow> bool" where
  "writable v =
     (folder v \<noteq> FileAt \<and> getChild v indexName \<noteq> Some TFolder \<and> indexReadable v)"

text \<open>The children of the version folder other than the index file.\<close>

definition contentFiles :: "vault \<Rightarrow> (string \<times> node) list" where
  "contentFiles v = filter (\<lambda>c. fst c \<noteq> indexName) (children v)"

text \<open>
  A run of saves of one document, each with its clock reading, random id, name and
  description; the result lists the metadata that the calls returned, in call order.
\<close>

type_synonym SaveRequest = "int \<times> nat \<times> string option \<times> string option"

fun saveAll :: "nat \<Rightarrow> TFile_arg \<Rightarrow> vault \<Rightarrow> SaveRequest list \<Rightarrow> VersionMeta list outcome" where
  "saveAll maxVersions file v [] = Returns [] v"
| "saveAll maxVersions file v ((now, vid, nm, descr) # rs) =
     (case saveVersion maxVersions v file now vid nm descr of
        Throws e v1 \<Rightarrow> Throws e v1
      | Returns m v1 \<Rightarrow>
          (case saveAll maxVersions file v1 rs of
             Throws e v2 \<Rightarrow> Throws e v2
           | Returns ms v2 \<Rightarrow> Returns (m # ms) v2))"

section \<open>Properties of the diff rendering\<close>

subsection \<open>Helper lemmas: trim, tag stripping, markFrontmatter\<close>

lemma all_dropWhile: "(\<forall>x\<in>set (dropWhile P l). P x) \<longleftrightarrow> (\<forall>x\<in>set l. P x)"
proof
  assume a: "\<forall>x\<in>set (dropWhile P l). P x"
  show "\<forall>x\<in>set l. P x"
  proof
    fix x assume "x \<in> set l"
    then have "x \<in> set (takeWhile P l) \<or> x \<in> set (dropWhile P l)"
      using takeWhile_dropWhile_id [of P l] by (metis Un_iff set_append)
    then show "P x" using a by (auto dest: set_takeWhileD)
  qed
next
  assume "\<forall>x\<in>set l. P x"
  then show "\<forall>x\<in>set (dropWhile P l). P x" by (auto dest: set_dropWhileD)
qed

lemma trim_Nil_iff: "trim l = [] \<longleftrightarrow> (\<forall>c\<in>set l. is_ws c)"
  by (simp add: trim_def dropWhile_eq_Nil_conv all_dropWhile)

lemma keepLine_iff: "keepLine l \<longleftrightarrow> (\<exists>c\<in>set l. \<not> is_ws c)"
  using trim_Nil_iff [of l] by (auto simp: keepLine_def)

lemma set_tl_dropWhile: "set (tl (dropWhile P cs)) \<subseteq> set cs"
proof
  fix x assume "x \<in> set (tl (dropWhile P cs))"
  then have "x \<in> set (dropWhile P cs)"
    by (cases "dropWhile P cs") auto
  then show "x \<in> set cs" by (rule set_dropWhileD)
qed

lemma strip_tags_subset: "set (strip_tags l) \<subseteq> set l"
proof (induction l rule: strip_tags.induct)
  case 1
  then show ?case by simp
next
  case (2 c cs)
  show ?case
  proof (cases "c = CHR ''<'' \<and> takeWhile (\<lambda>x. x \<noteq> CHR ''>'') cs \<noteq> []
          \<and> dropWhile (\<lambda>x. x \<noteq> CHR ''>'') cs \<noteq> []")
    case True
    then have "set (strip_tags (c # cs)) \<subseteq> set (tl (dropWhile (\<lambda>x. x \<noteq> CHR ''>'') cs))"
      using 2(1) by simp
    also have "\<dots> \<subseteq> set cs" by (rule set_tl_dropWhile)
    finally show ?thesis by auto
  next
    case False
    then have "strip_tags (c # cs) = c # strip_tags cs" by auto
    then show ?thesis using 2(2) False by auto
  qed
qed

lemma textContent_keep: "textContent l \<noteq> [] \<Longrightarrow> keepLine l"
proof -
  assume "textContent l \<noteq> []"
  then obtain c where "c \<in> set (strip_tags l)" "\<not> is_ws c"
    by (auto simp: textContent_def trim_Nil_iff)
  then show ?thesis using strip_tags_subset [of l] by (auto simp: keepLine_iff)
qed

lemma keepLine_del_wrap: "keepLine (del_wrap s)"
  by (simp add: keepLine_iff del_wrap_def is_ws_def)

lemma keepLine_ins_wrap: "keepLine (ins_wrap s)"
  by (simp add: keepLine_iff ins_wrap_def is_ws_def)

lemma pane_of_renderSideBySide:
  "pane_of p (renderSideBySide diffs)
   = join_nl (markFrontmatter (filter keepLine (pane_of p (renderLines diffs))))"
  by (cases p) (auto simp: renderSideBySide_def pane_of_def split: prod.splits)

lemma markFrom_closed: "markFrom False True ls = ls"
  by (induction ls) auto

lemma markFrom_inside:
  "\<forall>l\<in>set mid. textContent l \<noteq> ''---'' \<Longrightarrow> textContent d2 = ''---'' \<Longrightarrow>
   markFrom True True (mid @ d2 # rest) = map fm_wrap mid @ fm_wrap d2 # rest"
  by (induction mid) (auto simp: markFrom_closed)

lemma markFrontmatter_block:
  assumes "textContent d1 = ''---''" and "\<forall>l\<in>set mid. textContent l \<noteq> ''---''"
    and "textContent d2 = ''---''"
  shows "markFrontmatter (d1 # mid @ d2 # rest) = map fm_wrap (d1 # mid @ [d2]) @ rest"
  using assms by (simp add: markFrontmatter_def markFrom_inside)

subsection \<open>C1: the round trip of computeDiff\<close>

lemma segments_newSide: "newSide (map segment_of ds) = diff_text2 ds"
  by (induction ds) (auto simp: newSide_def diff_text2_def segment_of_def)

lemma segments_oldSide: "oldSide (map segment_of ds) = diff_text1 ds"
  by (induction ds) (auto simp: oldSide_def diff_text1_def segment_of_def)

lemma diff_text1_append [simp]: "diff_text1 (xs @ ys) = diff_text1 xs @ diff_text1 ys"
  by (simp add: diff_text1_def)

lemma diff_text2_append [simp]: "diff_text2 (xs @ ys) = diff_text2 xs @ diff_text2 ys"
  by (simp add: diff_text2_def)

lemma diff_text_emit:
  "diff_text1 (emit eq del ins) = eq @ del" "diff_text2 (emit eq del ins) = eq @ ins"
  by (simp_all add: emit_def diff_text1_def diff_text2_def)

lemma diff_text1_coalesce:
  "diff_text1 (coalesce eq del ins ds) = eq @ del @ diff_text1 ds"
proof (induction ds arbitrary: eq del ins)
  case Nil
  then show ?case by (simp add: diff_text_emit) (simp add: diff_text1_def)
next
  case (Cons d ds)
  then show ?case by (simp add: diff_text_emit) (simp add: diff_text1_def)
qed

lemma diff_text2_coalesce:
  "diff_text2 (coalesce eq del ins ds) = eq @ ins @ diff_text2 ds"
proof (induction ds arbitrary: eq del ins)
  case Nil
  then show ?case by (simp add: diff_text_emit) (simp add: diff_text2_def)
next
  case (Cons d ds)
  then show ?case by (simp add: diff_text_emit) (simp add: diff_text2_def)
qed

lemma diff_text1_dissolve: "diff_text1 (dissolve db ib ds) = diff_text1 ds"
  by (induction ds arbitrary: db ib) (simp_all add: diff_text1_def)

lemma diff_text2_dissolve: "diff_text2 (dissolve db ib ds) = diff_text2 ds"
  by (induction ds arbitrary: db ib) (simp_all add: diff_text2_def)

lemma diff_text1_edit_script:
  "diff_text1 (map (\<lambda>e. (fst e, [snd e])) (edit_script a b)) = a"
  by (induction a b rule: edit_script.induct) (simp_all add: diff_text1_def comp_def)

lemma diff_text2_edit_script:
  "diff_text2 (map (\<lambda>e. (fst e, [snd e])) (edit_script a b)) = b"
  by (induction a b rule: edit_script.induct) (simp_all add: diff_text2_def comp_def)

lemma diff_main_texts: "diff_text1 (diff_main a b) = a" "diff_text2 (diff_main a b) = b"
  by (simp_all add: diff_main_def diff_text1_coalesce diff_text2_coalesce
      diff_text1_edit_script diff_text2_edit_script)

lemma diff_cleanupSemantic_texts:
  "diff_text1 (diff_cleanupSemantic ds) = diff_text1 ds"
  "diff_text2 (diff_cleanupSemantic ds) = diff_text2 ds"
  by (simp_all add: diff_cleanupSemantic_def diff_text1_coalesce diff_text2_coalesce
      diff_text1_dissolve diff_text2_dissolve)

text \<open>
  C1. For every pair of texts A and B, the texts of the \<open>equal\<close> and \<open>insert\<close> segments
  of computeDiff(A, B), concatenated in order, are exactly B, and the texts of the
  \<open>equal\<close> and \<open>delete\<close> segments, concatenated in order, are exactly A.
\<close>

theorem computeDiff_round_trip:
  "newSide (computeDiff A B) = B \<and> oldSide (computeDiff A B) = A"
  by (simp add: computeDiff_def segments_newSide segments_oldSide
      diff_cleanupSemantic_texts diff_main_texts)

theorem computeDiff_round_trip_witness:
  \<open>computeDiff ''A\<newline>B\<newline>C\<newline>'' ''A\<newline>X\<newline>C\<newline>''
     = [\<lparr>seg_type = Equal, seg_text = ''A\<newline>''\<rparr>, \<lparr>seg_type = Delete, seg_text = ''B''\<rparr>,
        \<lparr>seg_type = Insert, seg_text = ''X''\<rparr>, \<lparr>seg_type = Equal, seg_text = ''\<newline>C\<newline>''\<rparr>]
   \<and> newSide (computeDiff ''A\<newline>B\<newline>C\<newline>'' ''A\<newline>X\<newline>C\<newline>'') = ''A\<newline>X\<newline>C\<newline>''
   \<and> oldSide (computeDiff ''A\<newline>B\<newline>C\<newline>'' ''A\<newline>X\<newline>C\<newline>'') = ''A\<newline>B\<newline>C\<newline>''\<close>
proof -
  have \<open>computeDiff ''A\<newline>B\<newline>C\<newline>'' ''A\<newline>X\<newline>C\<newline>''
     = [\<lparr>seg_type = Equal, seg_text = ''A\<newline>''\<rparr>, \<lparr>seg_type = Delete, seg_text = ''B''\<rparr>,
        \<lparr>seg_type = Insert, seg_text = ''X''\<rparr>, \<lparr>seg_type = Equal, seg_text = ''\<newline>C\<newline>''\<rparr>]\<close>
    by code_simp
  then show ?thesis
    using computeDiff_round_trip [of \<open>''A\<newline>B\<newline>C\<newline>''\<close> \<open>''A\<newline>X\<newline>C\<newline>''\<close>] by simp
qed

subsection \<open>C2: lines flushed by an insert segment\<close>

text \<open>
  C2. The claim: every completed line that an insert segment flushes to the right pane
  at a line break is wrapped in the insert marker, as every completed line of a delete
  segment is wrapped in the delete marker on the left. The code: at a line break inside
  an insert segment, the line pushed to the right pane is the escaped text alone, while
  the delete branch pushes the escaped text inside the delete marker. At the input
  \<open>oldText = ""\<close>, \<open>newText = "x\n"\<close> (diff script: one insertion of \<open>"x\n"\<close>) the
  right pane is the bare line \<open>x\n\<close> with no insert marker, while the mirrored
  deletion of \<open>"x\n"\<close> gives a left pane whose lines are wrapped in the delete marker.
\<close>

theorem insert_flush_unmarked:
  \<open>rightLines (step_line 1 txt False line st)
     = rightLines st @ [escapeHtml (currentNew st @ line @ [nl])]
   \<and> leftLines (step_line (-1) txt False line st)
     = leftLines st @ [del_wrap (escapeHtml (currentOld st @ line @ [nl]))]
   \<and> renderSideBySide [(1, ''x\<newline>'')] = ([], ''x\<newline>'')
   \<and> renderSideBySide [(-1, ''x\<newline>'')] = (del_wrap ''x\<newline>'' @ nl # del_wrap [], [])\<close>
proof -
  have a: \<open>renderSideBySide [(1, ''x\<newline>'')] = ([], ''x\<newline>'')\<close>
    by code_simp
  have b: \<open>renderSideBySide [(-1, ''x\<newline>'')] = (del_wrap ''x\<newline>'' @ nl # del_wrap [], [])\<close>
    by code_simp
  show ?thesis
    using a b by (simp add: step_line_def Let_def)
qed

theorem insert_flush_unmarked_witness:
  \<open>rightLines (step_line 1 ''x\<newline>'' False ''x'' init_state) = [''x\<newline>'']
   \<and> leftLines (step_line (-1) ''x\<newline>'' False ''x'' init_state) = [del_wrap ''x\<newline>'']\<close>
proof -
  have \<open>escapeHtml ''x\<newline>'' = ''x\<newline>''\<close> by code_simp
  then show ?thesis
    using insert_flush_unmarked [of \<open>''x\<newline>''\<close> \<open>''x''\<close> init_state]
    by (simp add: init_state_def nl_def)
qed

subsection \<open>C7: the filter of blank lines\<close>

text \<open>
  C7 as stated fails: for the deletion of \<open>"\n"\<close> the left pane holds two delete-marked
  lines whose tag-stripped content is empty, and both are kept.
\<close>

theorem blank_marked_line_kept:
  \<open>renderLines [(-1, ''\<newline>'')] = ([del_wrap ''\<newline>'', del_wrap []], []) \<and>
   textContent (del_wrap ''\<newline>'') = [] \<and>
   textContent (del_wrap []) = [] \<and>
   renderSideBySide [(-1, ''\<newline>'')] = (del_wrap ''\<newline>'' @ nl # del_wrap [], [])\<close>
  by code_simp

text \<open>
  C7, amended. For every diff script, renderSideBySide drops from both panes exactly the
  lines whose whole escaped text, markers included, is pure white space (\<open>trim()\<close> is
  empty). So a line wrapped in the insert or the delete marker is never dropped, whatever
  its inner text, and no line whose tag-stripped content has a character other than
  white space is dropped.
\<close>

theorem filter_keeps_nonblank_lines:
  "pane_of p (renderSideBySide diffs)
     = join_nl (markFrontmatter
         (filter (\<lambda>l. \<exists>c\<in>set l. \<not> is_ws c) (pane_of p (renderLines diffs))))
   \<and> keepLine (del_wrap s) \<and> keepLine (ins_wrap s)
   \<and> (textContent l \<noteq> [] \<longrightarrow> keepLine l)"
proof -
  have "keepLine = (\<lambda>l. \<exists>c\<in>set l. \<not> is_ws c)"
    by (rule ext) (rule keepLine_iff)
  then show ?thesis
    using pane_of_renderSideBySide [of p diffs] keepLine_del_wrap [of s]
      keepLine_ins_wrap [of s] textContent_keep [of l]
    by simp
qed

theorem filter_keeps_nonblank_lines_witness:
  \<open>pane_of LeftPane (renderSideBySide [(-1, ''\<newline>''), (0, ''a\<newline>'')])
     = join_nl (markFrontmatter
         (filter (\<lambda>l. \<exists>c\<in>set l. \<not> is_ws c)
            (pane_of LeftPane (renderLines [(-1, ''\<newline>''), (0, ''a\<newline>'')]))))
   \<and> keepLine (del_wrap ''\<newline>'') \<and> keepLine (ins_wrap ''\<newline>'')
   \<and> textContent ''a\<newline>'' \<noteq> [] \<and> keepLine ''a\<newline>''\<close>
proof -
  have a: \<open>textContent ''a\<newline>'' \<noteq> []\<close> by code_simp
  show ?thesis
    using a filter_keeps_nonblank_lines
      [of LeftPane \<open>[(-1, ''\<newline>''), (0, ''a\<newline>'')]\<close> \<open>''\<newline>''\<close> \<open>''a\<newline>''\<close>]
    by simp
qed

subsection \<open>C9: the frontmatter block\<close>

lemma markFrom_before:
  "\<forall>l\<in>set pre. textContent l \<noteq> ''---'' \<Longrightarrow>
   markFrom False False (pre @ ls) = pre @ markFrom False False ls"
  by (induction pre) auto

lemma markFrom_unclosed:
  "\<forall>l\<in>set mid. textContent l \<noteq> ''---'' \<Longrightarrow> markFrom True True mid = map fm_wrap mid"
  by (induction mid) auto

lemma markFrontmatter_closed_block:
  assumes "\<forall>l\<in>set pre. textContent l \<noteq> ''---''"
    and "textContent d1 = ''---''" and "\<forall>l\<in>set mid. textContent l \<noteq> ''---''"
    and "textContent d2 = ''---''"
  shows "markFrontmatter (pre @ d1 # mid @ d2 # rest)
         = pre @ map fm_wrap (d1 # mid @ [d2]) @ rest"
  using assms by (simp add: markFrontmatter_def markFrom_before markFrom_inside)

lemma markFrontmatter_open_block:
  assumes "\<forall>l\<in>set pre. textContent l \<noteq> ''---''"
    and "textContent d1 = ''---''" and "\<forall>l\<in>set mid. textContent l \<noteq> ''---''"
  shows "markFrontmatter (pre @ d1 # mid) = pre @ map fm_wrap (d1 # mid)"
  using assms by (simp add: markFrontmatter_def markFrom_before markFrom_unclosed)

lemma markFrontmatter_no_block:
  assumes "\<forall>l\<in>set ls. textContent l \<noteq> ''---''"
  shows "markFrontmatter ls = ls"
  using markFrom_before [of ls "[]"] assms by (simp add: markFrontmatter_def)

lemma fm_wrap_marker:
  \<open>fm_wrap = (\<lambda>l. ''<span class="version-diff-frontmatter">'' @ l @ ''</span>'')\<close>
  by (simp add: fun_eq_iff fm_wrap_def)

lemma split_on_no_sep: "sep \<notin> set l \<Longrightarrow> split_on sep l = [l]"
  by (induction l) auto

lemma split_on_append_sep:
  "sep \<notin> set l \<Longrightarrow> split_on sep (l @ sep # r) = l # split_on sep r"
  by (induction l) auto

lemma split_nl_join_nl:
  "ls \<noteq> [] \<Longrightarrow> \<forall>l\<in>set ls. nl \<notin> set l \<Longrightarrow> split_nl (join_nl ls) = ls"
proof (induction ls rule: join_nl.induct)
  case 1
  then show ?case by simp
next
  case (2 l)
  then show ?case by (simp add: split_nl_def split_on_no_sep)
next
  case (3 l v va)
  then show ?case by (simp add: split_nl_def split_on_append_sep)
qed

lemma flush_clean:
  "currentOld st = [] \<Longrightarrow> currentNew st = [] \<Longrightarrow> flushNew (flushOld st) = st"
  by (simp add: flushOld_def flushNew_def)

lemma step_lines_equal:
  "currentOld st = [] \<Longrightarrow> currentNew st = [] \<Longrightarrow>
   step_lines 0 txt ls st
   = st\<lparr>leftLines := leftLines st @ map escapeHtml (withNewlines ls),
        rightLines := rightLines st @ map escapeHtml (withNewlines ls)\<rparr>"
proof (induction ls arbitrary: st rule: withNewlines.induct)
  case 1
  then show ?case by simp
next
  case (2 l)
  then show ?case by (simp add: step_line_def flush_clean)
next
  case (3 l v va)
  let ?st1 = "step_line 0 txt False l st"
  have s1: "?st1 = st\<lparr>leftLines := leftLines st @ [escapeHtml (l @ [nl])],
        rightLines := rightLines st @ [escapeHtml (l @ [nl])]\<rparr>"
    using 3(2,3) by (simp add: step_line_def flush_clean Let_def)
  then have "currentOld ?st1 = []" "currentNew ?st1 = []" using 3(2,3) by simp_all
  from 3(1) [OF this] s1 show ?case by simp
qed

lemma renderLines_unchanged:
  "renderLines [(0, txt)]
   = (map escapeHtml (withNewlines (split_nl txt)), map escapeHtml (withNewlines (split_nl txt)))"
  by (simp add: renderLines_def step_diff_def step_lines_equal init_state_def
      flushOld_def flushNew_def)

lemma replaceAll_id: "c \<notin> set s \<Longrightarrow> replaceAll c rep s = s"
  by (induction s) (auto simp: replaceAll_def)

lemma set_replaceAll:
  "set (replaceAll c rep s) = (set s - {c}) \<union> (if c \<in> set s then set rep else {})"
  by (induction s) (auto simp: replaceAll_def)

lemma escapeHtml_no_lt: "CHR ''<'' \<notin> set (escapeHtml s)"
  by (simp add: escapeHtml_def set_replaceAll)

lemma escapeHtml_keeps:
  assumes "c \<in> set s" and "c \<notin> {CHR ''&'', CHR ''<'', CHR ''>'', CHR 0x22, CHR 0x27}"
  shows "c \<in> set (escapeHtml s)"
  using assms by (simp add: escapeHtml_def set_replaceAll)

lemma strip_tags_id: "CHR ''<'' \<notin> set s \<Longrightarrow> strip_tags s = s"
  by (induction s) auto

lemma set_trim: "c \<in> set s \<Longrightarrow> \<not> is_ws c \<Longrightarrow> c \<in> set (trim s)"
proof -
  assume c: "c \<in> set s" and n: "\<not> is_ws c"
  have a: "c \<in> set (dropWhile is_ws xs)" if "c \<in> set xs" for xs
    using that n
    by (metis UnE set_append set_takeWhileD takeWhile_dropWhile_id)
  from a [OF c] have "c \<in> set (rev (dropWhile is_ws s))" by simp
  from a [OF this] show ?thesis by (simp add: trim_def)
qed

lemma textContent_colon:
  assumes "CHR '':'' \<in> set k"
  shows "textContent (escapeHtml (k @ [nl])) \<noteq> ''---''"
proof -
  have "CHR '':'' \<in> set (escapeHtml (k @ [nl]))"
    using assms by (intro escapeHtml_keeps) auto
  moreover have "strip_tags (escapeHtml (k @ [nl])) = escapeHtml (k @ [nl])"
    by (rule strip_tags_id) (rule escapeHtml_no_lt)
  ultimately have "CHR '':'' \<in> set (textContent (escapeHtml (k @ [nl])))"
    unfolding textContent_def by (simp add: set_trim is_ws_def)
  then show ?thesis by auto
qed

lemma keepLine_colon:
  assumes "CHR '':'' \<in> set k"
  shows "keepLine (escapeHtml (k @ [nl]))"
proof -
  have "CHR '':'' \<in> set (escapeHtml (k @ [nl]))"
    using assms by (intro escapeHtml_keeps) auto
  moreover have "\<not> is_ws (CHR '':'')" by (simp add: is_ws_def)
  ultimately show ?thesis unfolding keepLine_iff by blast
qed

lemma withNewlines_append:
  "ys \<noteq> [] \<Longrightarrow> withNewlines (xs @ ys) = map (\<lambda>k. k @ [nl]) xs @ withNewlines ys"
proof (induction xs)
  case Nil
  then show ?case by simp
next
  case (Cons x xs)
  then obtain z zs where "xs @ ys = z # zs" by (cases "xs @ ys") auto
  with Cons show ?case by simp
qed

lemma withNewlines_front:
  "withNewlines (a # kvs @ c # body)
   = (a @ [nl]) # map (\<lambda>k. k @ [nl]) kvs @ withNewlines (c # body)"
  using withNewlines_append [of "c # body" "a # kvs"] by simp

lemma withNewlines_Cons:
  "withNewlines (c # body) = (if body = [] then [c] else (c @ [nl]) # withNewlines body)"
  by (cases body) auto

lemma frontmatter_of_unchanged_text:
  assumes "\<forall>k\<in>set kvs. nl \<notin> set k \<and> CHR '':'' \<in> set k"
    and "\<forall>b\<in>set body. nl \<notin> set b"
  shows "renderSideBySide [(0, join_nl (''---'' # kvs @ ''---'' # body))]
         = (join_nl (map fm_wrap (''---\<newline>'' # map (\<lambda>k. escapeHtml (k @ [nl])) kvs
                        @ [if body = [] then ''---'' else ''---\<newline>''])
                     @ filter keepLine (map escapeHtml (withNewlines body))),
            join_nl (map fm_wrap (''---\<newline>'' # map (\<lambda>k. escapeHtml (k @ [nl])) kvs
                        @ [if body = [] then ''---'' else ''---\<newline>''])
                     @ filter keepLine (map escapeHtml (withNewlines body))))"
proof -
  let ?ls = "''---'' # kvs @ ''---'' # body"
  let ?d2 = "if body = [] then ''---'' else ''---\<newline>''"
  let ?mid = "map (\<lambda>k. escapeHtml (k @ [nl])) kvs"
  let ?rest = "filter keepLine (map escapeHtml (withNewlines body))"
  have nonl: "\<forall>l\<in>set ?ls. nl \<notin> set l"
    using assms by (auto simp: nl_def)
  have sp: "split_nl (join_nl ?ls) = ?ls"
    by (rule split_nl_join_nl) (simp, rule nonl)
  have e1: "escapeHtml ''---\<newline>'' = ''---\<newline>''" by code_simp
  have e2: "escapeHtml ''---'' = ''---''" by code_simp
  have wl: "map escapeHtml (withNewlines ?ls)
            = ''---\<newline>'' # ?mid @ ?d2 # map escapeHtml (withNewlines body)"
  proof -
    have "withNewlines ?ls = (''---'' @ [nl]) # map (\<lambda>k. k @ [nl]) kvs
            @ (if body = [] then [''---''] else (''---'' @ [nl]) # withNewlines body)"
      by (subst withNewlines_front, subst withNewlines_Cons, rule refl)
    then show ?thesis using e1 e2 by (simp add: nl_def comp_def)
  qed
  have k1: "keepLine ''---\<newline>''" by code_simp
  have k2: "keepLine ?d2" by (cases "body = []") (simp_all, code_simp+)
  have kmid: "filter keepLine ?mid = ?mid"
    using assms(1) by (intro filter_True) (auto simp: keepLine_colon)
  have fl: "filter keepLine (map escapeHtml (withNewlines ?ls)) = ''---\<newline>'' # ?mid @ ?d2 # ?rest"
    using k1 k2 kmid by (simp add: wl)
  have t1: "textContent ''---\<newline>'' = ''---''" by code_simp
  have t2: "textContent ?d2 = ''---''" by (cases "body = []") (simp_all, code_simp+)
  have tmid: "\<forall>l\<in>set ?mid. textContent l \<noteq> ''---''"
    using assms(1) by (auto simp: textContent_colon)
  have "markFrontmatter (''---\<newline>'' # ?mid @ ?d2 # ?rest)
        = map fm_wrap (''---\<newline>'' # ?mid @ [?d2]) @ ?rest"
    by (rule markFrontmatter_block [OF t1 tmid t2])
  then show ?thesis
    by (simp add: renderSideBySide_def renderLines_unchanged sp fl)
qed

lemma split_delimiter_script:
  \<open>diff_cleanupSemantic (diff_main ''---\<newline>k: v\<newline>---\<newline>body'' ''---\<newline>k: v\<newline>--\<newline>body'')
   = [(0, ''---\<newline>k: v\<newline>--''), (-1, ''-''), (0, ''\<newline>body'')]\<close>
  by code_simp

text \<open>
  C9 as stated fails: markFrontmatter does not look at the input texts. It runs, for each
  pane, over the rendered lines that the filter has kept, and a delimiter is a rendered
  line whose text without tags, trimmed, is \<open>---\<close>. A delimiter line of the input that
  the diff splits between two segments is rendered as several lines, none of them a
  delimiter. The old text below is \<open>---\<close>, \<open>k: v\<close>, \<open>---\<close>, \<open>body\<close>; the new text has \<open>--\<close> for
  the closing line, so the script is an equality that ends in \<open>--\<close>, the deletion of
  \<open>-\<close>, and the equality of the rest. The left pane, which shows the old text, has the
  lines \<open>--\<close> and the deleted \<open>-\<close> instead of a closing delimiter: the block is never
  closed, and \<open>body\<close> carries the frontmatter marker.
\<close>

theorem frontmatter_split_delimiter:
  \<open>renderSideBySide [(0, ''---\<newline>k: v\<newline>--''), (-1, ''-''), (0, ''\<newline>body'')]
   = (''<span class="version-diff-frontmatter">---\<newline></span>\<newline><span class="version-diff-frontmatter">k: v\<newline></span>\<newline><span class="version-diff-frontmatter">--</span>\<newline><span class="version-diff-frontmatter"><del class="version-diff-delete">-</del></span>\<newline><span class="version-diff-frontmatter">body</span>'',
      ''<span class="version-diff-frontmatter">---\<newline></span>\<newline><span class="version-diff-frontmatter">k: v\<newline></span>\<newline><span class="version-diff-frontmatter">--</span>\<newline><span class="version-diff-frontmatter">body</span>'')
   \<and> diff_text1 [(0, ''---\<newline>k: v\<newline>--''), (-1, ''-''), (0, ''\<newline>body'')]
       = ''---\<newline>k: v\<newline>---\<newline>body''
   \<and> diff_text2 [(0, ''---\<newline>k: v\<newline>--''), (-1, ''-''), (0, ''\<newline>body'')]
       = ''---\<newline>k: v\<newline>--\<newline>body''\<close>
  by code_simp

text \<open>
  C9, amended. For every diff script and each pane, with \<open>ls\<close> the rendered lines of the
  pane that the filter has kept, and a delimiter a line of \<open>ls\<close> whose text without
  tags, trimmed, is \<open>---\<close>:
  \<^item> when \<open>ls\<close> has a first delimiter and a later one, every line from the first
    through the next delimiter inclusive is wrapped in
    \<open><span class="version-diff-frontmatter">\<close> ... \<open></span>\<close>, and the lines before the first
    and after the second delimiter are left as they are, also a later pair of
    delimiters;
  \<^item> when \<open>ls\<close> has one delimiter only, every line from it to the end of the pane is
    wrapped;
  \<^item> when \<open>ls\<close> has no delimiter, no line is wrapped.
  The first delimiter opens the block wherever it stands, also after other lines.
  For a text rendered against itself (its diff script is one equality) the rendered
  lines are the lines of the text: when the text is a line \<open>---\<close>, then lines \<open>kvs\<close>
  that each hold a colon, then a line \<open>---\<close>, then any lines \<open>body\<close>, both panes are the
  same, the lines from the first \<open>---\<close> through the closing \<open>---\<close> are wrapped, and the
  body lines that the filter keeps follow unwrapped.
\<close>

theorem renderSideBySide_frontmatter:
  \<open>(filter keepLine (pane_of p (renderLines diffs)) = pre @ d1 # mid @ d2 # rest
      \<and> (\<forall>l\<in>set pre. textContent l \<noteq> ''---'')
      \<and> textContent d1 = ''---'' \<and> (\<forall>l\<in>set mid. textContent l \<noteq> ''---'')
      \<and> textContent d2 = ''---''
    \<longrightarrow> pane_of p (renderSideBySide diffs)
        = join_nl (pre @ map (\<lambda>l. ''<span class="version-diff-frontmatter">'' @ l @ ''</span>'')
                     (d1 # mid @ [d2]) @ rest))
   \<and> (filter keepLine (pane_of p (renderLines diffs)) = pre @ d1 # mid
      \<and> (\<forall>l\<in>set pre. textContent l \<noteq> ''---'')
      \<and> textContent d1 = ''---'' \<and> (\<forall>l\<in>set mid. textContent l \<noteq> ''---'')
    \<longrightarrow> pane_of p (renderSideBySide diffs)
        = join_nl (pre @ map (\<lambda>l. ''<span class="version-diff-frontmatter">'' @ l @ ''</span>'')
                     (d1 # mid)))
   \<and> ((\<forall>l\<in>set (filter keepLine (pane_of p (renderLines diffs))). textContent l \<noteq> ''---'')
    \<longrightarrow> pane_of p (renderSideBySide diffs)
        = join_nl (filter keepLine (pane_of p (renderLines diffs))))
   \<and> ((\<forall>k\<in>set kvs. nl \<notin> set k \<and> CHR '':'' \<in> set k) \<and> (\<forall>b\<in>set body. nl \<notin> set b)
    \<longrightarrow> renderSideBySide [(0, join_nl (''---'' # kvs @ ''---'' # body))]
         = (join_nl (map (\<lambda>l. ''<span class="version-diff-frontmatter">'' @ l @ ''</span>'')
                       (''---\<newline>'' # map (\<lambda>k. escapeHtml (k @ [nl])) kvs
                        @ [if body = [] then ''---'' else ''---\<newline>''])
                     @ filter keepLine (map escapeHtml (withNewlines body))),
            join_nl (map (\<lambda>l. ''<span class="version-diff-frontmatter">'' @ l @ ''</span>'')
                       (''---\<newline>'' # map (\<lambda>k. escapeHtml (k @ [nl])) kvs
                        @ [if body = [] then ''---'' else ''---\<newline>''])
                     @ filter keepLine (map escapeHtml (withNewlines body)))))\<close>
proof -
  let ?ls = "filter keepLine (pane_of p (renderLines diffs))"
  have r: "pane_of p (renderSideBySide diffs) = join_nl (markFrontmatter ?ls)"
    by (rule pane_of_renderSideBySide)
  have p1: "?ls = pre @ d1 # mid @ d2 # rest
      \<and> (\<forall>l\<in>set pre. textContent l \<noteq> ''---'')
      \<and> textContent d1 = ''---'' \<and> (\<forall>l\<in>set mid. textContent l \<noteq> ''---'')
      \<and> textContent d2 = ''---''
    \<longrightarrow> pane_of p (renderSideBySide diffs)
        = join_nl (pre @ map fm_wrap (d1 # mid @ [d2]) @ rest)"
    using markFrontmatter_closed_block [of pre d1 mid d2 rest] by (simp add: r)
  have p2: "?ls = pre @ d1 # mid
      \<and> (\<forall>l\<in>set pre. textContent l \<noteq> ''---'')
      \<and> textContent d1 = ''---'' \<and> (\<forall>l\<in>set mid. textContent l \<noteq> ''---'')
    \<longrightarrow> pane_of p (renderSideBySide diffs) = join_nl (pre @ map fm_wrap (d1 # mid))"
    using markFrontmatter_open_block [of pre d1 mid] by (simp add: r)
  have p3: "(\<forall>l\<in>set ?ls. textContent l \<noteq> ''---'')
    \<longrightarrow> pane_of p (renderSideBySide diffs) = join_nl ?ls"
    using markFrontmatter_no_block [of ?ls] by (simp add: r)
  note p4 = frontmatter_of_unchanged_text [of kvs body]
  from p1 p2 p3 p4 show ?thesis
    unfolding fm_wrap_marker by blast
qed

theorem renderSideBySide_frontmatter_witness:
  \<open>pane_of RightPane
     (renderSideBySide [(0, ''---\<newline>k: v\<newline>---\<newline>''), (1, ''---\<newline>''), (0, ''body\<newline>'')])
   = ''<span class="version-diff-frontmatter">---\<newline></span>\<newline><span class="version-diff-frontmatter">k: v\<newline></span>\<newline><span class="version-diff-frontmatter">---\<newline></span>\<newline>---\<newline>\<newline>body\<newline>''
   \<and> pane_of LeftPane (renderSideBySide [(0, ''x\<newline>---\<newline>y'')])
   = ''x\<newline>\<newline><span class="version-diff-frontmatter">---\<newline></span>\<newline><span class="version-diff-frontmatter">y</span>''
   \<and> pane_of LeftPane (renderSideBySide [(0, ''a\<newline>b'')])
   = ''a\<newline>\<newline>b''
   \<and> renderSideBySide [(0, ''---\<newline>k: v\<newline>---\<newline>body\<newline>---\<newline>x'')]
   = (''<span class="version-diff-frontmatter">---\<newline></span>\<newline><span class="version-diff-frontmatter">k: v\<newline></span>\<newline><span class="version-diff-frontmatter">---\<newline></span>\<newline>body\<newline>\<newline>---\<newline>\<newline>x'',
      ''<span class="version-diff-frontmatter">---\<newline></span>\<newline><span class="version-diff-frontmatter">k: v\<newline></span>\<newline><span class="version-diff-frontmatter">---\<newline></span>\<newline>body\<newline>\<newline>---\<newline>\<newline>x'')\<close>
proof -
  let ?D = \<open>[(0 :: int, ''---\<newline>k: v\<newline>---\<newline>''), (1, ''---\<newline>''), (0, ''body\<newline>'')]\<close>
  let ?E = \<open>[(0 :: int, ''x\<newline>---\<newline>y'')]\<close>
  let ?F = \<open>[(0 :: int, ''a\<newline>b'')]\<close>
  note T = renderSideBySide_frontmatter [where p = RightPane and diffs = ?D and pre = \<open>[]\<close>
      and ?d1.0 = \<open>''---\<newline>''\<close> and mid = \<open>[''k: v\<newline>'']\<close> and ?d2.0 = \<open>''---\<newline>''\<close>
      and rest = \<open>[''---\<newline>'', ''body\<newline>'']\<close> and kvs = \<open>[''k: v'']\<close>
      and body = \<open>[''body'', ''---'', ''x'']\<close>]
  note U = renderSideBySide_frontmatter [where p = LeftPane and diffs = ?E and pre = \<open>[''x\<newline>'']\<close>
      and ?d1.0 = \<open>''---\<newline>''\<close> and mid = \<open>[''y'']\<close>]
  note V = renderSideBySide_frontmatter [where p = LeftPane and diffs = ?F]
  have a: \<open>filter keepLine (pane_of RightPane (renderLines ?D))
      = [] @ ''---\<newline>'' # [''k: v\<newline>''] @ ''---\<newline>'' # [''---\<newline>'', ''body\<newline>'']\<close>
    by code_simp
  have b: \<open>textContent ''---\<newline>'' = ''---''\<close>
    by code_simp
  have c: \<open>\<forall>l\<in>set [''k: v\<newline>'']. textContent l \<noteq> ''---''\<close>
    by code_simp
  from T a b c have \<open>pane_of RightPane (renderSideBySide ?D)
      = join_nl ([] @ map (\<lambda>l. ''<span class="version-diff-frontmatter">'' @ l @ ''</span>'')
          (''---\<newline>'' # [''k: v\<newline>''] @ [''---\<newline>'']) @ [''---\<newline>'', ''body\<newline>''])\<close>
    by simp
  then have p1: \<open>pane_of RightPane (renderSideBySide ?D)
      = ''<span class="version-diff-frontmatter">---\<newline></span>\<newline><span class="version-diff-frontmatter">k: v\<newline></span>\<newline><span class="version-diff-frontmatter">---\<newline></span>\<newline>---\<newline>\<newline>body\<newline>''\<close>
    by (simp add: nl_def)
  have a2: \<open>filter keepLine (pane_of LeftPane (renderLines ?E)) = [''x\<newline>''] @ ''---\<newline>'' # [''y'']\<close>
    by code_simp
  have c2: \<open>(\<forall>l\<in>set [''x\<newline>'']. textContent l \<noteq> ''---'') \<and> (\<forall>l\<in>set [''y'']. textContent l \<noteq> ''---'')\<close>
    by code_simp
  from U a2 b c2 have \<open>pane_of LeftPane (renderSideBySide ?E)
      = join_nl ([''x\<newline>''] @ map (\<lambda>l. ''<span class="version-diff-frontmatter">'' @ l @ ''</span>'')
          (''---\<newline>'' # [''y'']))\<close>
    by simp
  then have p2: \<open>pane_of LeftPane (renderSideBySide ?E)
      = ''x\<newline>\<newline><span class="version-diff-frontmatter">---\<newline></span>\<newline><span class="version-diff-frontmatter">y</span>''\<close>
    by (simp add: nl_def)
  have a3: \<open>filter keepLine (pane_of LeftPane (renderLines ?F)) = [''a\<newline>'', ''b'']\<close>
    by code_simp
  have c3: \<open>\<forall>l\<in>set [''a\<newline>'', ''b'']. textContent l \<noteq> ''---''\<close>
    by code_simp
  from V a3 c3 have \<open>pane_of LeftPane (renderSideBySide ?F) = join_nl [''a\<newline>'', ''b'']\<close>
    by simp
  then have p3: \<open>pane_of LeftPane (renderSideBySide ?F)
      = ''a\<newline>\<newline>b''\<close>
    by (simp add: nl_def)
  have d: \<open>\<forall>k\<in>set [''k: v'']. nl \<notin> set k \<and> CHR '':'' \<in> set k\<close>
    by (simp add: nl_def)
  have e: \<open>\<forall>b\<in>set [''body'', ''---'', ''x'']. nl \<notin> set b\<close>
    by (simp add: nl_def)
  have j: \<open>join_nl (''---'' # [''k: v''] @ ''---'' # [''body'', ''---'', ''x''])
       = ''---\<newline>k: v\<newline>---\<newline>body\<newline>---\<newline>x''\<close>
    by code_simp
  have q: \<open>join_nl (map (\<lambda>l. ''<span class="version-diff-frontmatter">'' @ l @ ''</span>'')
              (''---\<newline>'' # map (\<lambda>k. escapeHtml (k @ [nl])) [''k: v'']
              @ [if [''body'', ''---'', ''x''] = [] then ''---'' else ''---\<newline>''])
            @ filter keepLine (map escapeHtml (withNewlines [''body'', ''---'', ''x''])))
       = ''<span class="version-diff-frontmatter">---\<newline></span>\<newline><span class="version-diff-frontmatter">k: v\<newline></span>\<newline><span class="version-diff-frontmatter">---\<newline></span>\<newline>body\<newline>\<newline>---\<newline>\<newline>x''\<close>
    by code_simp
  from T d e have \<open>renderSideBySide [(0, join_nl (''---'' # [''k: v''] @ ''---'' # [''body'', ''---'', ''x'']))]
         = (join_nl (map (\<lambda>l. ''<span class="version-diff-frontmatter">'' @ l @ ''</span>'')
                       (''---\<newline>'' # map (\<lambda>k. escapeHtml (k @ [nl])) [''k: v'']
                        @ [if [''body'', ''---'', ''x''] = [] then ''---'' else ''---\<newline>''])
                     @ filter keepLine (map escapeHtml (withNewlines [''body'', ''---'', ''x'']))),
            join_nl (map (\<lambda>l. ''<span class="version-diff-frontmatter">'' @ l @ ''</span>'')
                       (''---\<newline>'' # map (\<lambda>k. escapeHtml (k @ [nl])) [''k: v'']
                        @ [if [''body'', ''---'', ''x''] = [] then ''---'' else ''---\<newline>''])
                     @ filter keepLine (map escapeHtml (withNewlines [''body'', ''---'', ''x'']))))\<close>
    by blast
  then have p4: \<open>renderSideBySide [(0, ''---\<newline>k: v\<newline>---\<newline>body\<newline>---\<newline>x'')]
   = (''<span class="version-diff-frontmatter">---\<newline></span>\<newline><span class="version-diff-frontmatter">k: v\<newline></span>\<newline><span class="version-diff-frontmatter">---\<newline></span>\<newline>body\<newline>\<newline>---\<newline>\<newline>x'',
      ''<span class="version-diff-frontmatter">---\<newline></span>\<newline><span class="version-diff-frontmatter">k: v\<newline></span>\<newline><span class="version-diff-frontmatter">---\<newline></span>\<newline>body\<newline>\<newline>---\<newline>\<newline>x'')\<close>
    unfolding j q .
  from p1 p2 p3 p4 show ?thesis by (intro conjI)
qed

section \<open>Properties of the version storage\<close>

subsection \<open>Helper lemmas\<close>


lemma getChild_None_iff: "getChild v nm = None \<longleftrightarrow> nm \<notin> fst ` set (children v)"
  by (simp add: getChild_def map_of_eq_None_iff)

lemma map_of_modify:
  "nm \<in> fst ` set cs \<Longrightarrow>
   map_of (map (\<lambda>c. if fst c = nm then (nm, y) else c) cs) nm = Some y"
  by (induction cs) auto

lemma map_of_modify_other:
  "k \<noteq> nm \<Longrightarrow> map_of (map (\<lambda>c. if fst c = nm then (nm, y) else c) cs) k = map_of cs k"
  by (induction cs) auto

lemma map_of_snoc_new:
  "nm \<notin> fst ` set cs \<Longrightarrow> map_of (cs @ [(nm, y)]) nm = Some y"
  by (induction cs) auto

lemma map_of_snoc_other:
  "k \<noteq> nm \<Longrightarrow> map_of (cs @ [(nm, y)]) k = map_of cs k"
  by (induction cs) auto

lemma map_of_putIndex: "map_of (putIndex i cs) indexName = Some (TFile (IndexJson i))"
proof (cases "indexName \<in> fst ` set cs")
  case True
  then show ?thesis using map_of_modify [of indexName cs] by (simp add: putIndex_def)
next
  case False
  then show ?thesis using map_of_snoc_new [of indexName cs] by (simp add: putIndex_def)
qed

lemma writeVersionIndex_char:
  "writeVersionIndex v i =
     (if folder v = FileAt then Throws IOError v
      else if getChild v indexName = Some TFolder then Throws AlreadyExists v
      else Returns () (v\<lparr>folder := FolderAt (putIndex i (children v))\<rparr>))"
proof (cases "folder v")
  case Absent
  then show ?thesis
    by (simp add: writeVersionIndex_def ensureFolderExists_def vault_createFolder_def
        writeIndexFile_def getChild_def children_def vault_create_def putIndex_def
        JSON_stringify_def)
next
  case FileAt
  then show ?thesis
    by (simp add: writeVersionIndex_def ensureFolderExists_def
        writeIndexFile_def getChild_def children_def vault_create_def)
next
  case (FolderAt cs)
  show ?thesis
  proof (cases "map_of cs indexName")
    case None
    then have "indexName \<notin> fst ` set cs" by (simp add: map_of_eq_None_iff)
    with None FolderAt show ?thesis
      by (simp add: writeVersionIndex_def ensureFolderExists_def
        writeIndexFile_def getChild_def children_def vault_create_def putIndex_def
        JSON_stringify_def)
  next
    case (Some n)
    then have in_cs: "indexName \<in> fst ` set cs"
      by (metis map_of_eq_None_iff option.distinct(1))
    show ?thesis
    proof (cases n)
      case (TFile t)
      with Some FolderAt in_cs show ?thesis
        by (simp add: writeVersionIndex_def ensureFolderExists_def
        writeIndexFile_def getChild_def children_def vault_modify_def putIndex_def
        JSON_stringify_def)
    next
      case TFolder
      with Some FolderAt in_cs show ?thesis
        by (simp add: writeVersionIndex_def ensureFolderExists_def
        writeIndexFile_def getChild_def children_def vault_create_def)
    qed
  qed
qed


lemma fileTimestamp_indexName: "fileTimestamp indexName = None"
  by code_simp

lemma not_encodes_index: "\<not> encodes t (indexName, n)"
  by (simp add: encodes_def fileTimestamp_indexName)

lemma map_of_deleteFirst:
  "fileTimestamp nm \<noteq> Some t \<Longrightarrow> map_of (deleteFirst t cs) nm = map_of cs nm"
  by (induction cs) (auto simp: encodes_def)

lemma getChild_folder_update [simp]: "getChild (v\<lparr>folder := FolderAt cs\<rparr>) nm = map_of cs nm"
  by (simp add: getChild_def children_def)

lemma children_folder_update [simp]: "children (v\<lparr>folder := FolderAt cs\<rparr>) = cs"
  by (simp add: children_def)

lemma readVersionIndex_eq:
  "readVersionIndex v =
     (case getChild v indexName of
        Some (TFile (IndexJson i)) \<Rightarrow> JIndex i
      | Some (TFile NullJson) \<Rightarrow> JNull
      | Some (TFile OtherJson) \<Rightarrow> JOther
      | _ \<Rightarrow> JIndex emptyIndex)"
  by (simp add: readVersionIndex_def readVersionIndex_try_def vault_read_def JSON_parse_def
      split: option.splits node.splits filetext.splits)

lemma storedIndex_eq:
  "storedIndex v =
     (case getChild v indexName of Some (TFile (IndexJson i)) \<Rightarrow> i | _ \<Rightarrow> emptyIndex)"
  by (simp add: storedIndex_def readVersionIndex_eq
      split: option.splits node.splits filetext.splits)

lemma indexReadable_eq:
  "indexReadable v \<longleftrightarrow>
     getChild v indexName \<noteq> Some (TFile NullJson) \<and> getChild v indexName \<noteq> Some (TFile OtherJson)"
  by (simp add: indexReadable_def readVersionIndex_eq
      split: option.splits node.splits filetext.splits)

lemma readVersionIndex_stored: "indexReadable v \<Longrightarrow> readVersionIndex v = JIndex (storedIndex v)"
  by (simp add: indexReadable_def storedIndex_def split: json_value.splits)

lemma readVersionIndex_unreadable:
  "\<not> indexReadable v \<Longrightarrow> storedIndex v = emptyIndex \<and> readVersionIndex v \<noteq> JIndex i"
  by (simp add: indexReadable_def storedIndex_def split: json_value.splits)

lemma readVersionIndex_unwritable:
  "folder v = FileAt \<or> getChild v indexName = Some TFolder \<Longrightarrow> storedIndex v = emptyIndex"
  by (auto simp: storedIndex_eq getChild_def children_def)

lemma deleteVersion_char:
  "deleteVersion v t =
     (if \<not> indexReadable v \<or> folder v = FileAt \<or> getChild v indexName = Some TFolder then v
      else v\<lparr>folder := FolderAt
             (deleteFirst t (putIndex (dropTimestamp t (storedIndex v)) (children v)))\<rparr>)"
proof (cases "indexReadable v")
  case True
  then show ?thesis
    by (simp add: deleteVersion_def readVersionIndex_stored writeVersionIndex_char Let_def
        dropTimestamp_def)
next
  case False
  then show ?thesis
    by (simp add: deleteVersion_def indexReadable_def split: json_value.splits)
qed

lemma readVersionIndex_deleteVersion:
  "storedIndex (deleteVersion v t) = dropTimestamp t (storedIndex v)"
proof (cases "\<not> indexReadable v \<or> folder v = FileAt \<or> getChild v indexName = Some TFolder")
  case True
  then have "storedIndex v = emptyIndex"
    using readVersionIndex_unwritable [of v] readVersionIndex_unreadable [of v] by blast
  then show ?thesis using True
    by (simp add: deleteVersion_char dropTimestamp_def emptyIndex_def)
next
  case False
  have "getChild (deleteVersion v t) indexName
        = Some (TFile (IndexJson (dropTimestamp t (storedIndex v))))"
    using False
    by (simp add: deleteVersion_char map_of_deleteFirst fileTimestamp_indexName map_of_putIndex)
  then show ?thesis by (simp add: storedIndex_eq)
qed

lemma readVersionIndex_foldl_deleteVersion:
  "storedIndex (foldl deleteVersion v ts)
   = (storedIndex v)\<lparr>versions :=
        filter (\<lambda>m. timestamp m \<notin> set ts) (versions (storedIndex v))\<rparr>"
proof (induction ts arbitrary: v)
  case Nil
  then show ?case by simp
next
  case (Cons t ts)
  have "filter (\<lambda>m. timestamp m \<notin> set ts) (filter (\<lambda>m. timestamp m \<noteq> t) xs)
        = filter (\<lambda>m. timestamp m \<notin> set (t # ts)) xs" for xs :: "VersionMeta list"
    by (induction xs) auto
  then show ?case
    by (simp add: Cons.IH readVersionIndex_deleteVersion dropTimestamp_def)
qed

lemma filter_drop_distinct:
  assumes "distinct (map f xs)"
  shows "filter (\<lambda>m. f m \<notin> set (map f (drop n xs))) xs = take n xs"
proof -
  have d: "distinct (map f (take n xs) @ map f (drop n xs))"
    using assms by (metis append_take_drop_id map_append)
  have keep: "filter (\<lambda>m. f m \<notin> set (map f (drop n xs))) (take n xs) = take n xs"
    using d by (intro filter_True) auto
  have gone: "filter (\<lambda>m. f m \<notin> set (map f (drop n xs))) (drop n xs) = []"
    by (intro filter_False) auto
  have "filter (\<lambda>m. f m \<notin> set (map f (drop n xs))) (take n xs @ drop n xs) = take n xs"
    using keep gone by (simp only: filter_append append_Nil2)
  then show ?thesis by simp
qed

lemma cleanupOldVersions_char:
  "cleanupOldVersions M v
   = (if indexReadable v then Returns () (evicted M v) else Throws TypeError v)"
  by (simp add: cleanupOldVersions_def evicted_def indexReadable_def storedIndex_def
      split: json_value.splits)

lemma readVersionIndex_cleanup:
  assumes "distinct (map timestamp (versions (storedIndex v)))"
  shows "storedIndex (evicted M v)
         = (storedIndex v)\<lparr>versions := take M (versions (storedIndex v))\<rparr>"
proof (cases "length (versions (storedIndex v)) > M")
  case True
  then show ?thesis
    using filter_drop_distinct [OF assms, of M]
    by (simp add: evicted_def readVersionIndex_foldl_deleteVersion)
next
  case False
  then show ?thesis by (simp add: evicted_def)
qed

lemma ensureFolderExists_char:
  "ensureFolderExists v = Returns () (if folder v = Absent then v\<lparr>folder := FolderAt []\<rparr> else v)"
  by (simp add: ensureFolderExists_def vault_createFolder_def split: folder_slot.splits)

lemma versionFilename_not_index: "versionFilename now vid \<noteq> indexName"
  by (simp add: versionFilename_def indexName_def)


lemma vault_create_Returns:
  "vault_create v nm data = Returns u v' \<Longrightarrow>
   nm \<notin> fst ` set (children v) \<and> folder v = FolderAt (children v) \<and>
   v' = v\<lparr>folder := FolderAt (children v @ [(nm, TFile data)])\<rparr>"
  by (auto simp: vault_create_def children_def split: folder_slot.splits if_splits)

lemma indexReadable_deleteVersion: "indexReadable v \<Longrightarrow> indexReadable (deleteVersion v t)"
proof (cases "folder v = FileAt \<or> getChild v indexName = Some TFolder")
  case True
  assume "indexReadable v"
  with True show ?thesis by (simp add: deleteVersion_char)
next
  case False
  assume r: "indexReadable v"
  with False have "getChild (deleteVersion v t) indexName
        = Some (TFile (IndexJson (dropTimestamp t (storedIndex v))))"
    by (simp add: deleteVersion_char map_of_deleteFirst fileTimestamp_indexName map_of_putIndex)
  then show ?thesis by (simp add: indexReadable_eq)
qed

lemma indexReadable_foldl_deleteVersion:
  "indexReadable v \<Longrightarrow> indexReadable (foldl deleteVersion v ts)"
  by (induction ts arbitrary: v) (simp_all add: indexReadable_deleteVersion)

lemma indexReadable_evicted: "indexReadable v \<Longrightarrow> indexReadable (evicted M v)"
  by (simp add: evicted_def indexReadable_foldl_deleteVersion)

lemma saveVersion_Returns:
  assumes "saveVersion M v file now vid nm descr = Returns meta v'"
  shows "meta = metaOf file now nm descr \<and>
         (\<exists>v3. storedIndex v3 =
                  (storedIndex v)\<lparr>versions := meta # versions (storedIndex v),
                                         lastUpdated := now\<rparr>
               \<and> indexReadable v3 \<and> v' = evicted M v3)"
proof -
  define v1 where "v1 = (if folder v = Absent then v\<lparr>folder := FolderAt []\<rparr> else v)"
  have g1: "getChild v1 indexName = getChild v indexName"
    by (auto simp: v1_def getChild_def children_def)
  from assms obtain v2 where
    c: "vault_create v1 (versionFilename now vid) (doc v) = Returns () v2"
    by (auto simp: saveVersion_def ensureFolderExists_char v1_def Let_def
        split: outcome.splits if_splits)
  from vault_create_Returns [OF c]
  have v2: "v2 = v1\<lparr>folder := FolderAt (children v1 @ [(versionFilename now vid, TFile (doc v))])\<rparr>"
    and f1: "folder v1 = FolderAt (children v1)"
    by auto
  have g2: "getChild v2 indexName = getChild v indexName"
    using versionFilename_not_index [of now vid] g1
    by (subst v2) (simp add: map_of_snoc_other getChild_def [of v1] del: map_of_append)
  then have r2: "storedIndex v2 = storedIndex v"
    by (simp add: storedIndex_eq)
  have rd: "indexReadable v2"
  proof (rule ccontr)
    assume "\<not> indexReadable v2"
    then have "\<not> (\<exists>i. readVersionIndex v2 = JIndex i)"
      using readVersionIndex_unreadable [of v2] by blast
    with assms c show False
      by (auto simp: saveVersion_def ensureFolderExists_char v1_def Let_def
          split: outcome.splits if_splits json_value.splits)
  qed
  then have rj: "readVersionIndex v2 = JIndex (storedIndex v)"
    using readVersionIndex_stored [of v2] r2 by simp
  define idx where "idx = (storedIndex v)\<lparr>versions := metaOf file now nm descr # versions (storedIndex v),
                                         lastUpdated := now\<rparr>"
  from assms c rj obtain v3 where
    w: "writeVersionIndex v2 idx = Returns () v3"
    and cl: "cleanupOldVersions M v3 = Returns () v'"
    and res: "meta = metaOf file now nm descr"
    by (auto simp: saveVersion_def ensureFolderExists_char v1_def Let_def idx_def
        split: outcome.splits if_splits)
  from w have "v3 = v2\<lparr>folder := FolderAt (putIndex idx (children v2))\<rparr>"
    by (auto simp: writeVersionIndex_char split: if_splits)
  then have g3: "getChild v3 indexName = Some (TFile (IndexJson idx))"
    by (simp add: map_of_putIndex)
  then have s3: "storedIndex v3 = idx"
    by (simp add: storedIndex_eq)
  from g3 have r3: "indexReadable v3" by (simp add: indexReadable_eq)
  with cl have "v' = evicted M v3" by (simp add: cleanupOldVersions_char)
  with res s3 r3 show ?thesis by (auto simp: idx_def)
qed

lemma saveVersion_index:
  assumes "saveVersion M v file now vid nm descr = Returns meta v'"
    and "distinct (map timestamp (versions (storedIndex v)))"
    and "now \<notin> timestamp ` set (versions (storedIndex v))"
  shows "storedIndex v'
         = \<lparr>versions = take M (meta # versions (storedIndex v)), lastUpdated = now\<rparr>"
    and "meta = metaOf file now nm descr"
    and "indexReadable v'"
proof -
  from saveVersion_Returns [OF assms(1)] obtain v3 where
    m: "meta = metaOf file now nm descr"
    and r3: "storedIndex v3 =
                  (storedIndex v)\<lparr>versions := meta # versions (storedIndex v),
                                         lastUpdated := now\<rparr>"
    and rd3: "indexReadable v3"
    and v': "v' = evicted M v3"
    by blast
  from rd3 v' show "indexReadable v'" by (simp add: indexReadable_evicted)
  have "timestamp meta = now" using m by (simp add: metaOf_def)
  then have d: "distinct (map timestamp (versions (storedIndex v3)))"
    using assms(2,3) r3 by simp
  show "storedIndex v'
         = \<lparr>versions = take M (meta # versions (storedIndex v)), lastUpdated = now\<rparr>"
    using readVersionIndex_cleanup [OF d, of M] r3 v' by simp
  show "meta = metaOf file now nm descr" by (rule m)
qed

lemma take_append_take: "take M (xs @ take M ys) = take M (xs @ ys)"
  by (simp add: min_def)

lemma saveAll_index:
  assumes "saveAll M file v reqs = Returns metas v'"
    and "distinct (map fst reqs @ map timestamp (versions (storedIndex v)))"
    and "reqs = [] \<longrightarrow> length (versions (storedIndex v)) \<le> M"
  shows "versions (storedIndex v') = take M (rev metas @ versions (storedIndex v))
         \<and> map timestamp metas = map fst reqs"
  using assms
proof (induction reqs arbitrary: v metas)
  case Nil
  then show ?case by simp
next
  case (Cons r rs)
  obtain now vid nm descr where r: "r = (now, vid, nm, descr)" by (cases r) auto
  from Cons.prems(1) r obtain m v1 ms where
    s1: "saveVersion M v file now vid nm descr = Returns m v1"
    and s2: "saveAll M file v1 rs = Returns ms v'"
    and ms: "metas = m # ms"
    by (auto split: outcome.splits)
  have d0: "distinct (map timestamp (versions (storedIndex v)))"
    and n0: "now \<notin> timestamp ` set (versions (storedIndex v))"
    using Cons.prems(2) r by auto
  note i1 = saveVersion_index [OF s1 d0 n0]
  have tm: "timestamp m = now" using i1(2) by (simp add: metaOf_def)
  have sub: "set (take M (m # versions (storedIndex v))) \<subseteq> set (m # versions (storedIndex v))"
    by (rule set_take_subset)
  have "distinct (map timestamp (take M (m # versions (storedIndex v))))"
    using d0 n0 tm by (metis distinct.simps(2) distinct_take list.simps(9) list.set_map take_map)
  moreover have "set (map fst rs) \<inter> timestamp ` set (m # versions (storedIndex v)) = {}"
    using Cons.prems(2) r tm by auto
  then have "set (map fst rs) \<inter> timestamp ` set (take M (m # versions (storedIndex v))) = {}"
    using sub by blast
  ultimately have d1: "distinct (map fst rs @ map timestamp (versions (storedIndex v1)))"
    using Cons.prems(2) i1(1) by simp
  have l1: "rs = [] \<longrightarrow> length (versions (storedIndex v1)) \<le> M"
    using i1(1) by simp
  from Cons.IH [OF s2 d1 l1]
  have "versions (storedIndex v') = take M (rev ms @ take M (m # versions (storedIndex v)))"
    and t: "map timestamp ms = map fst rs"
    using i1(1) by simp_all
  then have "versions (storedIndex v') = take M (rev metas @ versions (storedIndex v))"
    using ms by (simp add: take_append_take)
  moreover have "map timestamp metas = map fst (r # rs)"
    using t tm ms r by simp
  ultimately show ?case by simp
qed

lemma saveAll_readable:
  assumes "saveAll M file v reqs = Returns metas v'" and "reqs \<noteq> []"
  shows "indexReadable v'"
  using assms
proof (induction reqs arbitrary: v metas)
  case Nil
  then show ?case by simp
next
  case (Cons r rs)
  obtain now vid nm descr where r: "r = (now, vid, nm, descr)" by (cases r) auto
  from Cons.prems(1) r obtain m v1 ms where
    s1: "saveVersion M v file now vid nm descr = Returns m v1"
    and s2: "saveAll M file v1 rs = Returns ms v'"
    by (auto split: outcome.splits)
  from saveVersion_Returns [OF s1] have r1: "indexReadable v1"
    by (auto simp: indexReadable_evicted)
  show ?case
  proof (cases "rs = []")
    case True
    with s2 r1 show ?thesis by simp
  next
    case False
    from Cons.IH [OF s2 False] show ?thesis .
  qed
qed

lemma is_dec_char_of: "d < 10 \<Longrightarrow> is_dec (char_of (48 + d :: nat))"
  by (simp add: is_dec_def)

lemma show_nat_digits: "\<forall>c\<in>set (show_nat n). is_dec c"
proof (induction n rule: show_nat.induct)
  case (1 n)
  show ?case
  proof (cases "n < 10")
    case True
    then show ?thesis by (subst show_nat.simps) (simp add: is_dec_char_of)
  next
    case False
    then have "\<forall>c\<in>set (show_nat (n div 10)). is_dec c" using 1 by simp
    moreover have "is_dec (char_of (48 + n mod 10))" by (rule is_dec_char_of) simp
    ultimately show ?thesis using False by (subst show_nat.simps) simp
  qed
qed

lemma show_nat_nonempty: "show_nat n \<noteq> []"
  by (subst show_nat.simps) simp

lemma dec_value_show_nat: "dec_value (show_nat n) = n"
proof (induction n rule: show_nat.induct)
  case (1 n)
  show ?case
  proof (cases "n < 10")
    case True
    then show ?thesis by (subst show_nat.simps) (simp add: dec_value_def)
  next
    case False
    then have ih: "dec_value (show_nat (n div 10)) = n div 10" using 1 by simp
    have "n mod 10 < 10" by simp
    then have "(of_char (char_of (48 + n mod 10 :: nat)) :: nat) = 48 + n mod 10"
      by simp
    then have "dec_value (show_nat (n div 10) @ [char_of (48 + n mod 10)])
          = dec_value (show_nat (n div 10)) * 10 + n mod 10"
      by (simp add: dec_value_def)
    then show ?thesis using False ih by (subst show_nat.simps) simp
  qed
qed

lemma show_nat_inj: "show_nat m = show_nat n \<Longrightarrow> m = n"
  by (metis dec_value_show_nat)

lemma show_int_inj: "show_int i = show_int j \<Longrightarrow> i = j"
proof -
  assume eq: "show_int i = show_int j"
  have hd_dec: "is_dec (hd (show_nat n))" for n
    using show_nat_digits [of n] show_nat_nonempty [of n] by (cases "show_nat n") auto
  have not_dec: "\<not> is_dec (CHR ''-'')" by (simp add: is_dec_def)
  show "i = j"
  proof (cases "i < 0")
    case True
    note i = True
    show ?thesis
    proof (cases "j < 0")
      case True
      with i eq have "show_nat (nat (- i)) = show_nat (nat (- j))" by (simp add: show_int_def)
      then have "nat (- i) = nat (- j)" by (rule show_nat_inj)
      with i True show ?thesis by simp
    next
      case False
      with i eq have "CHR ''-'' # show_nat (nat (- i)) = show_nat (nat j)"
        by (simp add: show_int_def)
      then have "hd (show_nat (nat j)) = CHR ''-''" by (metis list.sel(1))
      with hd_dec [of "nat j"] not_dec show ?thesis by simp
    qed
  next
    case False
    note i = False
    show ?thesis
    proof (cases "j < 0")
      case True
      with i eq have "show_nat (nat i) = CHR ''-'' # show_nat (nat (- j))"
        by (simp add: show_int_def)
      then have "hd (show_nat (nat i)) = CHR ''-''" by (metis list.sel(1))
      with hd_dec [of "nat i"] not_dec show ?thesis by simp
    next
      case False
      with i eq have "show_nat (nat i) = show_nat (nat j)" by (simp add: show_int_def)
      then have "nat i = nat j" by (rule show_nat_inj)
      with i False show ?thesis by simp
    qed
  qed
qed

lemma show_int_no_underscore: "CHR ''_'' \<notin> set (show_int i)"
proof -
  have "\<not> is_dec (CHR ''_'')" by (simp add: is_dec_def)
  then have "CHR ''_'' \<notin> set (show_nat n)" for n
    using show_nat_digits [of n] by auto
  then show ?thesis by (simp add: show_int_def)
qed

lemma versionFilename_inj:
  assumes "versionFilename t vid = versionFilename t' vid'"
  shows "t = t'"
proof -
  from assms have eq: "show_int t @ CHR ''_'' # (show_nat vid @ ''.md'')
                     = show_int t' @ CHR ''_'' # (show_nat vid' @ ''.md'')"
    by (simp add: versionFilename_def)
  have "takeWhile (\<lambda>c. c \<noteq> CHR ''_'') (show_int t @ CHR ''_'' # (show_nat vid @ ''.md''))
        = show_int t"
    using show_int_no_underscore [of t] by (auto simp: takeWhile_tail takeWhile_eq_all_conv)
  moreover have "takeWhile (\<lambda>c. c \<noteq> CHR ''_'') (show_int t' @ CHR ''_'' # (show_nat vid' @ ''.md''))
        = show_int t'"
    using show_int_no_underscore [of t'] by (auto simp: takeWhile_tail takeWhile_eq_all_conv)
  ultimately have "show_int t = show_int t'" using eq by simp
  then show ?thesis by (rule show_int_inj)
qed


lemma names_putIndex: "fst ` set (putIndex i cs) \<subseteq> fst ` set cs \<union> {indexName}"
  by (auto simp: putIndex_def split: if_splits)

lemma names_deleteFirst: "fst ` set (deleteFirst t cs) \<subseteq> fst ` set cs"
  by (induction cs) auto

lemma names_deleteVersion: "names (deleteVersion v t) \<subseteq> names v \<union> {indexName}"
proof (cases "\<not> indexReadable v \<or> folder v = FileAt \<or> getChild v indexName = Some TFolder")
  case True
  then show ?thesis by (auto simp: deleteVersion_char)
next
  case False
  then have "names (deleteVersion v t)
      = fst ` set (deleteFirst t (putIndex (dropTimestamp t (storedIndex v)) (children v)))"
    by (simp add: deleteVersion_char names_def)
  also have "\<dots> \<subseteq> fst ` set (putIndex (dropTimestamp t (storedIndex v)) (children v))"
    by (rule names_deleteFirst)
  also have "\<dots> \<subseteq> names v \<union> {indexName}"
    unfolding names_def by (rule names_putIndex)
  finally show ?thesis .
qed

lemma writable_deleteVersion: "writable v \<Longrightarrow> writable (deleteVersion v t)"
  by (simp add: writable_def deleteVersion_char map_of_deleteFirst fileTimestamp_indexName
      map_of_putIndex indexReadable_eq)

lemma foldl_deleteVersion_keeps:
  "writable v \<Longrightarrow>
   writable (foldl deleteVersion v ts) \<and> names (foldl deleteVersion v ts) \<subseteq> names v \<union> {indexName}"
proof (induction ts arbitrary: v)
  case Nil
  then show ?case by auto
next
  case (Cons t ts)
  from Cons.IH [OF writable_deleteVersion [OF Cons.prems, of t]] names_deleteVersion [of v t]
  show ?case by auto
qed

lemma evicted_keeps:
  "writable v \<Longrightarrow>
   writable (evicted M v) \<and> names (evicted M v) \<subseteq> names v \<union> {indexName}"
  using foldl_deleteVersion_keeps [of v] by (auto simp: evicted_def)

lemma saveVersion_succeeds:
  assumes "writable v" and "versionFilename now vid \<notin> names v"
  shows "\<exists>meta v'. saveVersion M v file now vid nm descr = Returns meta v' \<and> writable v'
           \<and> names v' \<subseteq> names v \<union> {versionFilename now vid, indexName}"
proof -
  define v1 where "v1 = (if folder v = Absent then v\<lparr>folder := FolderAt []\<rparr> else v)"
  have e: "ensureFolderExists v = Returns () v1"
    by (simp add: ensureFolderExists_char v1_def)
  have f1: "folder v1 = FolderAt (children v1)"
    using assms(1) by (cases "folder v") (auto simp: v1_def children_def writable_def)
  have n1: "names v1 = names v"
    by (auto simp: v1_def names_def children_def)
  have g1: "getChild v1 indexName = getChild v indexName"
    by (auto simp: v1_def getChild_def children_def)
  define v2 where
    "v2 = v1\<lparr>folder := FolderAt (children v1 @ [(versionFilename now vid, TFile (doc v))])\<rparr>"
  have c: "vault_create v1 (versionFilename now vid) (doc v) = Returns () v2"
    using assms(2) f1 n1 by (simp add: vault_create_def v2_def names_def split: folder_slot.splits)
  have g2: "getChild v2 indexName = getChild v indexName"
    using versionFilename_not_index [of now vid] g1
    by (simp add: v2_def map_of_snoc_other getChild_def [of v1] del: map_of_append)
  have n2: "names v2 = names v \<union> {versionFilename now vid}"
    using n1 by (auto simp: v2_def names_def)
  have w2: "writable v2"
    using assms(1) g2 by (simp add: writable_def v2_def indexReadable_eq)
  then have rj: "readVersionIndex v2 = JIndex (storedIndex v2)"
    by (simp add: writable_def readVersionIndex_stored)
  define idx where "idx = (storedIndex v2)\<lparr>
      versions := metaOf file now nm descr # versions (storedIndex v2), lastUpdated := now\<rparr>"
  define v3 where "v3 = v2\<lparr>folder := FolderAt (putIndex idx (children v2))\<rparr>"
  have w: "writeVersionIndex v2 idx = Returns () v3"
    using w2 by (simp add: writeVersionIndex_char writable_def v3_def)
  have w3: "writable v3"
    by (simp add: writable_def v3_def map_of_putIndex indexReadable_eq)
  have n3: "names v3 \<subseteq> names v2 \<union> {indexName}"
    using names_putIndex [of idx "children v2"] by (simp add: v3_def names_def)
  have cl: "cleanupOldVersions M v3 = Returns () (evicted M v3)"
    using w3 by (simp add: cleanupOldVersions_char writable_def)
  have s: "saveVersion M v file now vid nm descr
           = Returns (metaOf file now nm descr) (evicted M v3)"
    using e c w rj cl by (simp add: saveVersion_def Let_def idx_def)
  from evicted_keeps [OF w3, of M] n3 n2 s show ?thesis by auto
qed

lemma saveAll_succeeds:
  assumes "writable v"
    and "\<forall>r\<in>set reqs. versionFilename (fst r) (fst (snd r)) \<notin> names v"
    and "distinct (map fst reqs)"
  shows "\<exists>metas v'. saveAll M file v reqs = Returns metas v' \<and> writable v'"
  using assms
proof (induction reqs arbitrary: v)
  case Nil
  then show ?case by simp
next
  case (Cons r rs)
  obtain now vid nm descr where r: "r = (now, vid, nm, descr)" by (cases r) auto
  from Cons.prems(2) r have fresh: "versionFilename now vid \<notin> names v" by simp
  from saveVersion_succeeds [OF Cons.prems(1) fresh, of M "file" nm descr]
  obtain meta v1 where s: "saveVersion M v file now vid nm descr = Returns meta v1"
    and w1: "writable v1"
    and n1: "names v1 \<subseteq> names v \<union> {versionFilename now vid, indexName}"
    by blast
  have "\<forall>r'\<in>set rs. versionFilename (fst r') (fst (snd r')) \<notin> names v1"
  proof
    fix r' assume in_rs: "r' \<in> set rs"
    then have a: "versionFilename (fst r') (fst (snd r')) \<notin> names v"
      using Cons.prems(2) by simp
    from in_rs Cons.prems(3) r have "fst r' \<noteq> now" by auto
    then have b: "versionFilename (fst r') (fst (snd r')) \<noteq> versionFilename now vid"
      using versionFilename_inj by blast
    have c: "versionFilename (fst r') (fst (snd r')) \<noteq> indexName"
      by (rule versionFilename_not_index)
    from a b c n1 show "versionFilename (fst r') (fst (snd r')) \<notin> names v1" by auto
  qed
  moreover have "distinct (map fst rs)" using Cons.prems(3) by simp
  ultimately obtain ms v' where "saveAll M file v1 rs = Returns ms v'" and "writable v'"
    using Cons.IH [OF w1] by blast
  with s r show ?case by simp
qed

subsection \<open>C3: retention\<close>

text \<open>
  C3 as stated fails when two saves read the same clock value: with maxVersions = 1, two
  saves at clock reading 1000 both return, the eviction of the older one calls
  deleteVersion(1000), whose filter removes both entries, and the index ends with no
  entry where the claim has exactly one.
\<close>

theorem retention_same_clock_reading:
  \<open>saveAll 1 \<lparr>file_name = ''note.md'', file_path = ''dir/note.md''\<rparr>
      \<lparr>doc = NotJson ''hello'', folder = Absent\<rparr>
      [(1000, 1, None, None), (1000, 2, None, None)]
    = Returns
        [metaOf \<lparr>file_name = ''note.md'', file_path = ''dir/note.md''\<rparr> 1000 None None,
         metaOf \<lparr>file_name = ''note.md'', file_path = ''dir/note.md''\<rparr> 1000 None None]
        \<lparr>doc = NotJson ''hello'',
         folder = FolderAt
           [(''versions.json'', TFile (IndexJson \<lparr>versions = [], lastUpdated = 1000\<rparr>)),
            (''version_1000_2.md'', TFile (NotJson ''hello''))]\<rparr>
   \<and> getVersions
        \<lparr>doc = NotJson ''hello'',
         folder = FolderAt
           [(''versions.json'', TFile (IndexJson \<lparr>versions = [], lastUpdated = 1000\<rparr>)),
            (''version_1000_2.md'', TFile (NotJson ''hello''))]\<rparr>
     = Returns (Some [])
        \<lparr>doc = NotJson ''hello'',
         folder = FolderAt
           [(''versions.json'', TFile (IndexJson \<lparr>versions = [], lastUpdated = 1000\<rparr>)),
            (''version_1000_2.md'', TFile (NotJson ''hello''))]\<rparr>\<close>
  by code_simp

text \<open>
  C3, amended. Take maxVersions + K saves of one document, K > 0, that all return, whose
  clock readings are pairwise distinct and differ from the timestamps that the index
  held before (themselves distinct). Afterwards getVersions returns exactly maxVersions
  entries: the metadata returned by the (K+1)-th through the last save, newest first;
  the K oldest of these saves and all earlier entries are gone. The saves do all return
  when the index of the document is read as an index and can be written (the folder path
  is not taken by a file, the index path not by a folder), no child of the version
  folder has the name of one of the files to come, and the clock readings are distinct.
\<close>

theorem retention_keeps_newest:
  "(saveAll maxVersions file v0 reqs = Returns metas v
      \<and> distinct (map fst reqs @ map timestamp (versions (storedIndex v0)))
      \<and> length reqs = maxVersions + K \<and> 0 < K
    \<longrightarrow> getVersions v = Returns (Some (rev (drop K metas))) v
        \<and> length (rev (drop K metas)) = maxVersions
        \<and> map timestamp metas = map fst reqs)
   \<and> (folder v0 \<noteq> FileAt \<and> getChild v0 indexName \<noteq> Some TFolder \<and> indexReadable v0
      \<and> (\<forall>r\<in>set reqs. versionFilename (fst r) (fst (snd r)) \<notin> fst ` set (children v0))
      \<and> distinct (map fst reqs)
    \<longrightarrow> (\<exists>ms v'. saveAll maxVersions file v0 reqs = Returns ms v'))"
proof (intro conjI impI)
  assume h: "saveAll maxVersions file v0 reqs = Returns metas v
      \<and> distinct (map fst reqs @ map timestamp (versions (storedIndex v0)))
      \<and> length reqs = maxVersions + K \<and> 0 < K"
  then have s: "saveAll maxVersions file v0 reqs = Returns metas v"
    and d: "distinct (map fst reqs @ map timestamp (versions (storedIndex v0)))"
    and n: "length reqs = maxVersions + K" and k: "0 < K"
    by simp_all
  from n k have ne: "reqs \<noteq> []" by auto
  then have l: "reqs = [] \<longrightarrow> length (versions (storedIndex v0)) \<le> maxVersions"
    by simp
  from saveAll_index [OF s d l]
  have vs: "versions (storedIndex v) = take maxVersions (rev metas @ versions (storedIndex v0))"
    and ts: "map timestamp metas = map fst reqs"
    by simp_all
  have len: "length metas = maxVersions + K"
    using ts n by (metis length_map)
  then have "take maxVersions (rev metas @ versions (storedIndex v0)) = rev (drop K metas)"
    by (simp add: take_rev)
  with vs have v2: "versions (storedIndex v) = rev (drop K metas)" by simp
  have "readVersionIndex v = JIndex (storedIndex v)"
    using saveAll_readable [OF s ne] by (rule readVersionIndex_stored)
  then have "getVersions v = Returns (Some (versions (storedIndex v))) v"
    by (simp add: getVersions_def)
  with v2 show "getVersions v = Returns (Some (rev (drop K metas))) v" by simp
  from len show "length (rev (drop K metas)) = maxVersions" by simp
  from ts show "map timestamp metas = map fst reqs" .
next
  assume h: "folder v0 \<noteq> FileAt \<and> getChild v0 indexName \<noteq> Some TFolder \<and> indexReadable v0
      \<and> (\<forall>r\<in>set reqs. versionFilename (fst r) (fst (snd r)) \<notin> fst ` set (children v0))
      \<and> distinct (map fst reqs)"
  then have w: "writable v0" by (simp add: writable_def)
  from h have n: "\<forall>r\<in>set reqs. versionFilename (fst r) (fst (snd r)) \<notin> names v0"
    by (simp add: names_def)
  from h have dr: "distinct (map fst reqs)" by simp
  from saveAll_succeeds [OF w n dr, of maxVersions "file"]
  show "\<exists>ms v'. saveAll maxVersions file v0 reqs = Returns ms v'" by blast
qed

theorem retention_keeps_newest_witness:
  \<open>saveAll 2 \<lparr>file_name = ''note.md'', file_path = ''dir/note.md''\<rparr>
      \<lparr>doc = NotJson ''hello'', folder = Absent\<rparr>
      [(1000, 7, None, None), (1001, 8, Some ''b'', None), (1002, 9, Some ''c'', Some ''d'')]
    = Returns
        [metaOf \<lparr>file_name = ''note.md'', file_path = ''dir/note.md''\<rparr> 1000 None None,
         metaOf \<lparr>file_name = ''note.md'', file_path = ''dir/note.md''\<rparr> 1001 (Some ''b'') None,
         metaOf \<lparr>file_name = ''note.md'', file_path = ''dir/note.md''\<rparr> 1002 (Some ''c'') (Some ''d'')]
        \<lparr>doc = NotJson ''hello'',
         folder = FolderAt
           [(''versions.json'', TFile (IndexJson
              \<lparr>versions =
                 [metaOf \<lparr>file_name = ''note.md'', file_path = ''dir/note.md''\<rparr> 1002 (Some ''c'') (Some ''d''),
                  metaOf \<lparr>file_name = ''note.md'', file_path = ''dir/note.md''\<rparr> 1001 (Some ''b'') None],
               lastUpdated = 1002\<rparr>)),
            (''version_1001_8.md'', TFile (NotJson ''hello'')),
            (''version_1002_9.md'', TFile (NotJson ''hello''))]\<rparr>
   \<and> getVersions
        \<lparr>doc = NotJson ''hello'',
         folder = FolderAt
           [(''versions.json'', TFile (IndexJson
              \<lparr>versions =
                 [metaOf \<lparr>file_name = ''note.md'', file_path = ''dir/note.md''\<rparr> 1002 (Some ''c'') (Some ''d''),
                  metaOf \<lparr>file_name = ''note.md'', file_path = ''dir/note.md''\<rparr> 1001 (Some ''b'') None],
               lastUpdated = 1002\<rparr>)),
            (''version_1001_8.md'', TFile (NotJson ''hello'')),
            (''version_1002_9.md'', TFile (NotJson ''hello''))]\<rparr>
     = Returns (Some
         [metaOf \<lparr>file_name = ''note.md'', file_path = ''dir/note.md''\<rparr> 1002 (Some ''c'') (Some ''d''),
          metaOf \<lparr>file_name = ''note.md'', file_path = ''dir/note.md''\<rparr> 1001 (Some ''b'') None])
        \<lparr>doc = NotJson ''hello'',
         folder = FolderAt
           [(''versions.json'', TFile (IndexJson
              \<lparr>versions =
                 [metaOf \<lparr>file_name = ''note.md'', file_path = ''dir/note.md''\<rparr> 1002 (Some ''c'') (Some ''d''),
                  metaOf \<lparr>file_name = ''note.md'', file_path = ''dir/note.md''\<rparr> 1001 (Some ''b'') None],
               lastUpdated = 1002\<rparr>)),
            (''version_1001_8.md'', TFile (NotJson ''hello'')),
            (''version_1002_9.md'', TFile (NotJson ''hello''))]\<rparr>\<close>
proof -
  let ?f = \<open>\<lparr>file_name = ''note.md'', file_path = ''dir/note.md''\<rparr>\<close>
  let ?v0 = \<open>\<lparr>doc = NotJson ''hello'', folder = Absent\<rparr>\<close>
  let ?reqs = \<open>[(1000 :: int, 7 :: nat, None :: string option, None :: string option),
       (1001, 8, Some ''b'', None), (1002, 9, Some ''c'', Some ''d'')]\<close>
  let ?ms = \<open>[metaOf ?f 1000 None None, metaOf ?f 1001 (Some ''b'') None,
               metaOf ?f 1002 (Some ''c'') (Some ''d'')]\<close>
  let ?vF = \<open>\<lparr>doc = NotJson ''hello'',
         folder = FolderAt
           [(''versions.json'', TFile (IndexJson
              \<lparr>versions = [metaOf ?f 1002 (Some ''c'') (Some ''d''), metaOf ?f 1001 (Some ''b'') None],
               lastUpdated = 1002\<rparr>)),
            (''version_1001_8.md'', TFile (NotJson ''hello'')),
            (''version_1002_9.md'', TFile (NotJson ''hello''))]\<rparr>\<close>
  have a1: \<open>folder ?v0 \<noteq> FileAt \<and> getChild ?v0 indexName \<noteq> Some TFolder \<and> indexReadable ?v0\<close>
    by (simp add: indexReadable_eq getChild_def children_def)
  have a4: \<open>\<forall>r\<in>set ?reqs. versionFilename (fst r) (fst (snd r)) \<notin> fst ` set (children ?v0)\<close>
    by (simp add: children_def)
  have a5: \<open>distinct (map fst ?reqs @ map timestamp (versions (storedIndex ?v0)))\<close>
    by (simp add: storedIndex_eq getChild_def children_def emptyIndex_def)
  have a6: \<open>length ?reqs = 2 + 1 \<and> 0 < (1 :: nat)\<close> by simp
  have e: \<open>saveAll 2 ?f ?v0 ?reqs = Returns ?ms ?vF\<close>
    by code_simp
  note T = retention_keeps_newest [of 2 ?f ?v0 ?reqs ?ms ?vF 1]
  from T a1 a4 a5 have \<open>\<exists>ms v'. saveAll 2 ?f ?v0 ?reqs = Returns ms v'\<close>
    by simp
  from T e a5 a6 have \<open>getVersions ?vF = Returns (Some (rev (drop 1 ?ms))) ?vF\<close>
    by blast
  with e show ?thesis by simp
qed

lemma findIndex_Some:
  "findIndex P xs = Some i \<Longrightarrow> i < length xs \<and> P (xs ! i) \<and> (\<forall>j<i. \<not> P (xs ! j))"
proof (induction xs arbitrary: i)
  case Nil
  then show ?case by simp
next
  case (Cons x xs)
  show ?case
  proof (cases "P x")
    case True
    with Cons.prems show ?thesis by simp
  next
    case False
    with Cons.prems obtain k where k: "findIndex P xs = Some k" "i = Suc k"
      by auto
    from Cons.IH [OF k(1)] False k(2) show ?thesis
      by (auto simp: less_Suc_eq_0_disj)
  qed
qed

lemma findIndex_None: "findIndex P xs = None \<longleftrightarrow> (\<forall>x\<in>set xs. \<not> P x)"
  by (induction xs) auto

lemma filter_putIndex:
  "filter (\<lambda>c. fst c \<noteq> indexName) (putIndex i cs) = filter (\<lambda>c. fst c \<noteq> indexName) cs"
proof -
  have "filter (\<lambda>c. fst c \<noteq> indexName)
          (map (\<lambda>c. if fst c = indexName then (indexName, y) else c) cs)
        = filter (\<lambda>c. fst c \<noteq> indexName) cs" for y :: node
    by (induction cs) auto
  then show ?thesis by (simp add: putIndex_def)
qed

lemma versions_nonempty_writable:
  assumes "versions (storedIndex v) \<noteq> []"
  shows "folder v \<noteq> FileAt \<and> getChild v indexName \<noteq> Some TFolder"
  using assms readVersionIndex_unwritable [of v] by (auto simp: emptyIndex_def)

lemma versions_nonempty_readable:
  assumes "versions (storedIndex v) \<noteq> []"
  shows "readVersionIndex v = JIndex (storedIndex v)"
  using assms readVersionIndex_unreadable [of v] readVersionIndex_stored [of v]
  by (cases "indexReadable v") (auto simp: emptyIndex_def)

lemma updateVersion_not_found:
  assumes "findIndex (\<lambda>m. timestamp m = t) (versions (storedIndex v)) = None"
  shows "updateVersion v t u = (False, v)"
  using assms by (cases "readVersionIndex v") (simp_all add: updateVersion_def storedIndex_def)

lemma applyUpdates_fields:
  "name (applyUpdates u m) = (case upd_name u of Some n \<Rightarrow> Some n | None \<Rightarrow> name m)
   \<and> description (applyUpdates u m)
       = (case upd_description u of Some d \<Rightarrow> Some d | None \<Rightarrow> description m)
   \<and> filename (applyUpdates u m) = filename m
   \<and> timestamp (applyUpdates u m) = timestamp m
   \<and> originalPath (applyUpdates u m) = originalPath m"
  by (simp add: applyUpdates_def split: option.splits)

lemma updateVersion_found:
  assumes "findIndex (\<lambda>m. timestamp m = t) (versions (storedIndex v)) = Some i"
  shows "updateVersion v t u =
           (True, v\<lparr>folder := FolderAt (putIndex
              ((storedIndex v)\<lparr>versions := (versions (storedIndex v))
                   [i := applyUpdates u (versions (storedIndex v) ! i)]\<rparr>) (children v))\<rparr>)"
proof -
  from findIndex_Some [OF assms] have i: "i < length (versions (storedIndex v))" by simp
  then have "versions (storedIndex v) \<noteq> []" by auto
  from versions_nonempty_writable [OF this] versions_nonempty_readable [OF this] i assms
  show ?thesis
    by (simp add: updateVersion_def writeVersionIndex_char Let_def)
qed

subsection \<open>C4: updateVersion\<close>

text \<open>
  C4. When the index has an entry with timestamp t, \<open>findIndex\<close> gives the position i of
  the first one; updateVersion then returns true and rewrites entry i only: \<open>name\<close> and \<open>description\<close> take the given value
  when one is given (the empty string included) and keep their old value when it is
  omitted; the other fields of the entry, all other entries, \<open>lastUpdated\<close>, the document
  and the content files stay as they were. When no entry has timestamp t it returns false
  and the vault is unchanged.
\<close>

theorem updateVersion_overwrites_given_fields:
  fixes v :: vault and t :: int and u :: Updates
  defines "vs \<equiv> versions (storedIndex v)"
  defines "v' \<equiv> snd (updateVersion v t u)"
  shows "(findIndex (\<lambda>m. timestamp m = t) vs = Some i \<longrightarrow>
            i < length vs \<and> timestamp (vs ! i) = t \<and> (\<forall>j<i. timestamp (vs ! j) \<noteq> t)
            \<and> fst (updateVersion v t u) = True
            \<and> versions (storedIndex v')
                = vs[i := (vs ! i)\<lparr>
                    name := (case upd_name u of Some n \<Rightarrow> Some n | None \<Rightarrow> name (vs ! i)),
                    description := (case upd_description u of Some d \<Rightarrow> Some d
                                    | None \<Rightarrow> description (vs ! i))\<rparr>]
            \<and> lastUpdated (storedIndex v') = lastUpdated (storedIndex v)
            \<and> doc v' = doc v \<and> contentFiles v' = contentFiles v)
       \<and> (t \<in> timestamp ` set vs \<longrightarrow> findIndex (\<lambda>m. timestamp m = t) vs \<noteq> None)
       \<and> (t \<notin> timestamp ` set vs \<longrightarrow> updateVersion v t u = (False, v))"
proof (intro conjI impI)
  assume fi: "findIndex (\<lambda>m. timestamp m = t) vs = Some i"
  note p = findIndex_Some [OF fi]
  from p show "i < length vs" by simp
  from p show "timestamp (vs ! i) = t" by simp
  from p show "\<forall>j<i. timestamp (vs ! j) \<noteq> t" by simp
  define idx where "idx = (storedIndex v)\<lparr>versions := vs[i := applyUpdates u (vs ! i)]\<rparr>"
  have upd: "updateVersion v t u = (True, v\<lparr>folder := FolderAt (putIndex idx (children v))\<rparr>)"
    using updateVersion_found [of t v i u] fi by (simp add: vs_def idx_def)
  then have v': "v' = v\<lparr>folder := FolderAt (putIndex idx (children v))\<rparr>"
    by (simp add: v'_def)
  from upd show "fst (updateVersion v t u) = True" by simp
  have r: "storedIndex v' = idx"
    by (simp add: storedIndex_eq v' map_of_putIndex)
  have ap: "applyUpdates u (vs ! i) = (vs ! i)\<lparr>
                      name := (case upd_name u of Some n \<Rightarrow> Some n | None \<Rightarrow> name (vs ! i)),
                      description := (case upd_description u of Some d \<Rightarrow> Some d
                                      | None \<Rightarrow> description (vs ! i))\<rparr>"
    by (simp add: applyUpdates_def split: option.splits)
  from r ap show "versions (storedIndex v')
                = vs[i := (vs ! i)\<lparr>
                    name := (case upd_name u of Some n \<Rightarrow> Some n | None \<Rightarrow> name (vs ! i)),
                    description := (case upd_description u of Some d \<Rightarrow> Some d
                                    | None \<Rightarrow> description (vs ! i))\<rparr>]"
    by (simp add: idx_def)
  from r show "lastUpdated (storedIndex v') = lastUpdated (storedIndex v)"
    by (simp add: idx_def)
  show "doc v' = doc v" by (simp add: v')
  show "contentFiles v' = contentFiles v"
    by (simp add: contentFiles_def v' filter_putIndex)
next
  assume "t \<in> timestamp ` set vs"
  then show "findIndex (\<lambda>m. timestamp m = t) vs \<noteq> None"
    by (auto simp: findIndex_None)
next
  assume "t \<notin> timestamp ` set vs"
  then have "findIndex (\<lambda>m. timestamp m = t) vs = None"
    by (auto simp: findIndex_None)
  then show "updateVersion v t u = (False, v)"
    by (simp add: updateVersion_not_found vs_def)
qed

theorem updateVersion_overwrites_given_fields_witness:
  \<open>findIndex (\<lambda>m. timestamp m = 1000)
      [metaOf \<lparr>file_name = ''n.md'', file_path = ''n.md''\<rparr> 1001 (Some ''b'') None,
       metaOf \<lparr>file_name = ''n.md'', file_path = ''n.md''\<rparr> 1000 (Some ''a'') (Some ''old'')]
     = Some 1
   \<and> versions (storedIndex (snd (updateVersion
        \<lparr>doc = NotJson ''hello'',
         folder = FolderAt
           [(''versions.json'', TFile (IndexJson
              \<lparr>versions =
                 [metaOf \<lparr>file_name = ''n.md'', file_path = ''n.md''\<rparr> 1001 (Some ''b'') None,
                  metaOf \<lparr>file_name = ''n.md'', file_path = ''n.md''\<rparr> 1000 (Some ''a'') (Some ''old'')],
               lastUpdated = 1001\<rparr>))]\<rparr>
        1000 \<lparr>upd_name = Some [], upd_description = None\<rparr>)))
      = [metaOf \<lparr>file_name = ''n.md'', file_path = ''n.md''\<rparr> 1001 (Some ''b'') None,
         metaOf \<lparr>file_name = ''n.md'', file_path = ''n.md''\<rparr> 1000 (Some []) (Some ''old'')]
   \<and> updateVersion \<lparr>doc = NotJson ''hello'', folder = Absent\<rparr> 1000
        \<lparr>upd_name = Some [], upd_description = None\<rparr>
      = (False, \<lparr>doc = NotJson ''hello'', folder = Absent\<rparr>)\<close>
proof -
  let ?m1 = \<open>metaOf \<lparr>file_name = ''n.md'', file_path = ''n.md''\<rparr> 1001 (Some ''b'') None\<close>
  let ?m0 = \<open>metaOf \<lparr>file_name = ''n.md'', file_path = ''n.md''\<rparr> 1000 (Some ''a'') (Some ''old'')\<close>
  let ?v = \<open>\<lparr>doc = NotJson ''hello'',
         folder = FolderAt
           [(''versions.json'', TFile (IndexJson \<lparr>versions = [?m1, ?m0], lastUpdated = 1001\<rparr>))]\<rparr>\<close>
  let ?u = \<open>\<lparr>upd_name = Some [], upd_description = None\<rparr>\<close>
  have r: \<open>storedIndex ?v = \<lparr>versions = [?m1, ?m0], lastUpdated = 1001\<rparr>\<close>
    by (simp add: storedIndex_eq indexName_def getChild_def children_def)
  have f: \<open>findIndex (\<lambda>m. timestamp m = 1000) [?m1, ?m0] = Some 1\<close>
    by (simp add: metaOf_def)
  have e: \<open>versions (storedIndex \<lparr>doc = NotJson ''hello'', folder = Absent\<rparr>) = []\<close>
    by (simp add: storedIndex_eq getChild_def children_def emptyIndex_def)
  show ?thesis
    using f updateVersion_overwrites_given_fields [of 1000 ?v 1 ?u]
      updateVersion_overwrites_given_fields [of 1000 \<open>\<lparr>doc = NotJson ''hello'', folder = Absent\<rparr>\<close> 0 ?u]
    unfolding r e by (simp add: metaOf_def)
qed

subsection \<open>C5: restoreVersion\<close>



lemma getVersionContent_vault:
  "getVersionContent v t = Returns x v' \<Longrightarrow> v' = v"
  "getVersionContent v t = Throws e v' \<Longrightarrow> v' = v"
  by (auto simp: getVersionContent_def split: json_value.splits)



subsection \<open>C6: getVersions\<close>

text \<open>
  C6 as stated fails: getVersions can throw, and it can return something that is no
  sequence. \<open>JSON.parse\<close> succeeds on every valid JSON text, and the cast
  \<open>as VersionIndex\<close> checks nothing, so readVersionIndex returns from inside its
  \<open>try\<close> whatever the text of the index file parses to. When that text is \<open>null\<close>,
  getVersions evaluates \<open>index.versions\<close> on \<open>null\<close>, outside any \<open>try\<close>, and throws a
  \<open>TypeError\<close>. When it is a value without the property \<open>versions\<close>, such as \<open>{}\<close>,
  getVersions returns \<open>undefined\<close>.
\<close>

theorem getVersions_throws_on_null:
  \<open>getVersions \<lparr>doc = NotJson ''a'',
        folder = FolderAt [(''versions.json'', TFile NullJson),
                           (''version_5_1.md'', TFile (NotJson ''x''))]\<rparr>
     = Throws TypeError \<lparr>doc = NotJson ''a'',
        folder = FolderAt [(''versions.json'', TFile NullJson),
                           (''version_5_1.md'', TFile (NotJson ''x''))]\<rparr>
   \<and> readVersionIndex_try \<lparr>doc = NotJson ''a'',
        folder = FolderAt [(''versions.json'', TFile NullJson),
                           (''version_5_1.md'', TFile (NotJson ''x''))]\<rparr> = Inr (Some JNull)
   \<and> getVersions \<lparr>doc = NotJson ''a'',
        folder = FolderAt [(''versions.json'', TFile OtherJson),
                           (''version_5_1.md'', TFile (NotJson ''x''))]\<rparr>
     = Returns None \<lparr>doc = NotJson ''a'',
        folder = FolderAt [(''versions.json'', TFile OtherJson),
                           (''version_5_1.md'', TFile (NotJson ''x''))]\<rparr>\<close>
  by (simp add: getVersions_def readVersionIndex_def readVersionIndex_try_def vault_read_def
      JSON_parse_def getChild_def children_def indexName_def)

text \<open>
  C6, amended: what getVersions does is decided by what is stored under the name of the
  index file.
  \<^item> No index file, or a folder of that name: the empty sequence.
  \<^item> A file whose text is not valid JSON: \<open>JSON.parse\<close> throws a \<open>SyntaxError\<close>, which
    readVersionIndex catches, and getVersions returns the empty sequence.
  \<^item> A file that holds an index: the versions of that index, as stored.
  \<^item> A file whose text is \<open>null\<close>: getVersions throws a \<open>TypeError\<close>.
  \<^item> A file whose text is another valid JSON value without \<open>versions\<close>: getVersions
    returns \<open>undefined\<close>.
  In no case does getVersions change the vault.
\<close>

theorem getVersions_by_index_file:
  "(getChild v indexName = None \<longrightarrow> getVersions v = Returns (Some []) v)
   \<and> (getChild v indexName = Some TFolder \<longrightarrow> getVersions v = Returns (Some []) v)
   \<and> (getChild v indexName = Some (TFile (NotJson s)) \<longrightarrow>
        readVersionIndex_try v = Inl SyntaxError \<and> getVersions v = Returns (Some []) v)
   \<and> (getChild v indexName = Some (TFile (IndexJson i)) \<longrightarrow>
        getVersions v = Returns (Some (versions i)) v)
   \<and> (getChild v indexName = Some (TFile NullJson) \<longrightarrow> getVersions v = Throws TypeError v)
   \<and> (getChild v indexName = Some (TFile OtherJson) \<longrightarrow> getVersions v = Returns None v)"
  by (simp add: getVersions_def readVersionIndex_def readVersionIndex_try_def vault_read_def
      JSON_parse_def emptyIndex_def)

theorem getVersions_by_index_file_witness:
  \<open>getVersions \<lparr>doc = NotJson ''a'', folder = Absent\<rparr>
     = Returns (Some []) \<lparr>doc = NotJson ''a'', folder = Absent\<rparr>
   \<and> getVersions \<lparr>doc = NotJson ''a'', folder = FolderAt [(''versions.json'', TFolder)]\<rparr>
     = Returns (Some []) \<lparr>doc = NotJson ''a'', folder = FolderAt [(''versions.json'', TFolder)]\<rparr>
   \<and> getVersions \<lparr>doc = NotJson ''a'',
        folder = FolderAt [(''versions.json'', TFile (NotJson ''{"versions": ['')),
                           (''version_5_1.md'', TFile (NotJson ''x''))]\<rparr>
     = Returns (Some []) \<lparr>doc = NotJson ''a'',
        folder = FolderAt [(''versions.json'', TFile (NotJson ''{"versions": ['')),
                           (''version_5_1.md'', TFile (NotJson ''x''))]\<rparr>
   \<and> getVersions \<lparr>doc = NotJson ''a'',
        folder = FolderAt [(''versions.json'', TFile (IndexJson
          \<lparr>versions = [metaOf \<lparr>file_name = ''n.md'', file_path = ''n.md''\<rparr> 6 None None,
                         metaOf \<lparr>file_name = ''n.md'', file_path = ''n.md''\<rparr> 5 None None],
           lastUpdated = 6\<rparr>))]\<rparr>
     = Returns (Some [metaOf \<lparr>file_name = ''n.md'', file_path = ''n.md''\<rparr> 6 None None,
                metaOf \<lparr>file_name = ''n.md'', file_path = ''n.md''\<rparr> 5 None None])
        \<lparr>doc = NotJson ''a'',
        folder = FolderAt [(''versions.json'', TFile (IndexJson
          \<lparr>versions = [metaOf \<lparr>file_name = ''n.md'', file_path = ''n.md''\<rparr> 6 None None,
                         metaOf \<lparr>file_name = ''n.md'', file_path = ''n.md''\<rparr> 5 None None],
           lastUpdated = 6\<rparr>))]\<rparr>
   \<and> getVersions \<lparr>doc = NotJson ''a'',
        folder = FolderAt [(''versions.json'', TFile NullJson),
                           (''version_5_1.md'', TFile (NotJson ''x''))]\<rparr>
     = Throws TypeError \<lparr>doc = NotJson ''a'',
        folder = FolderAt [(''versions.json'', TFile NullJson),
                           (''version_5_1.md'', TFile (NotJson ''x''))]\<rparr>
   \<and> getVersions \<lparr>doc = NotJson ''a'',
        folder = FolderAt [(''versions.json'', TFile OtherJson),
                           (''version_5_1.md'', TFile (NotJson ''x''))]\<rparr>
     = Returns None \<lparr>doc = NotJson ''a'',
        folder = FolderAt [(''versions.json'', TFile OtherJson),
                           (''version_5_1.md'', TFile (NotJson ''x''))]\<rparr>\<close>
proof -
  have a: \<open>getChild \<lparr>doc = NotJson ''a'', folder = Absent\<rparr> indexName = None\<close>
    by (simp add: getChild_def children_def)
  have d: \<open>getChild \<lparr>doc = NotJson ''a'', folder = FolderAt [(''versions.json'', TFolder)]\<rparr> indexName = Some TFolder\<close>
    by (simp add: getChild_def children_def indexName_def)
  have b: \<open>getChild \<lparr>doc = NotJson ''a'',
        folder = FolderAt [(''versions.json'', TFile (NotJson ''{"versions": ['')),
                           (''version_5_1.md'', TFile (NotJson ''x''))]\<rparr> indexName
       = Some (TFile (NotJson ''{"versions": [''))\<close>
    by (simp add: getChild_def children_def indexName_def)
  have c: \<open>getChild \<lparr>doc = NotJson ''a'',
        folder = FolderAt [(''versions.json'', TFile (IndexJson
          \<lparr>versions = [metaOf \<lparr>file_name = ''n.md'', file_path = ''n.md''\<rparr> 6 None None,
                         metaOf \<lparr>file_name = ''n.md'', file_path = ''n.md''\<rparr> 5 None None],
           lastUpdated = 6\<rparr>))]\<rparr> indexName
       = Some (TFile (IndexJson
          \<lparr>versions = [metaOf \<lparr>file_name = ''n.md'', file_path = ''n.md''\<rparr> 6 None None,
                         metaOf \<lparr>file_name = ''n.md'', file_path = ''n.md''\<rparr> 5 None None],
           lastUpdated = 6\<rparr>))\<close>
    by (simp add: getChild_def children_def indexName_def)
  have n: \<open>getChild \<lparr>doc = NotJson ''a'',
        folder = FolderAt [(''versions.json'', TFile NullJson),
                           (''version_5_1.md'', TFile (NotJson ''x''))]\<rparr> indexName = Some (TFile NullJson)\<close>
    by (simp add: getChild_def children_def indexName_def)
  have o: \<open>getChild \<lparr>doc = NotJson ''a'',
        folder = FolderAt [(''versions.json'', TFile OtherJson),
                           (''version_5_1.md'', TFile (NotJson ''x''))]\<rparr> indexName = Some (TFile OtherJson)\<close>
    by (simp add: getChild_def children_def indexName_def)
  show ?thesis
    using getVersions_by_index_file [of \<open>\<lparr>doc = NotJson ''a'', folder = Absent\<rparr>\<close>] a
      getVersions_by_index_file [of \<open>\<lparr>doc = NotJson ''a'', folder = FolderAt [(''versions.json'', TFolder)]\<rparr>\<close>] d
      getVersions_by_index_file [of \<open>\<lparr>doc = NotJson ''a'',
        folder = FolderAt [(''versions.json'', TFile (NotJson ''{"versions": ['')),
                           (''version_5_1.md'', TFile (NotJson ''x''))]\<rparr>\<close> \<open>''{"versions": [''\<close>] b
      getVersions_by_index_file [of \<open>\<lparr>doc = NotJson ''a'',
        folder = FolderAt [(''versions.json'', TFile (IndexJson
          \<lparr>versions = [metaOf \<lparr>file_name = ''n.md'', file_path = ''n.md''\<rparr> 6 None None,
                         metaOf \<lparr>file_name = ''n.md'', file_path = ''n.md''\<rparr> 5 None None],
           lastUpdated = 6\<rparr>))]\<rparr>\<close> _ \<open>\<lparr>versions = [metaOf \<lparr>file_name = ''n.md'', file_path = ''n.md''\<rparr> 6 None None,
                         metaOf \<lparr>file_name = ''n.md'', file_path = ''n.md''\<rparr> 5 None None],
           lastUpdated = 6\<rparr>\<close>] c
      getVersions_by_index_file [of \<open>\<lparr>doc = NotJson ''a'',
        folder = FolderAt [(''versions.json'', TFile NullJson),
                           (''version_5_1.md'', TFile (NotJson ''x''))]\<rparr>\<close>] n
      getVersions_by_index_file [of \<open>\<lparr>doc = NotJson ''a'',
        folder = FolderAt [(''versions.json'', TFile OtherJson),
                           (''version_5_1.md'', TFile (NotJson ''x''))]\<rparr>\<close>] o
    by simp
qed

subsection \<open>C8: lastUpdated\<close>

lemma lastUpdated_deleteVersion:
  "lastUpdated (storedIndex (deleteVersion v t)) = lastUpdated (storedIndex v)"
  by (simp add: readVersionIndex_deleteVersion dropTimestamp_def)

lemma lastUpdated_updateVersion:
  "lastUpdated (storedIndex (snd (updateVersion v t u))) = lastUpdated (storedIndex v)"
proof (cases "findIndex (\<lambda>m. timestamp m = t) (versions (storedIndex v))")
  case None
  then show ?thesis by (simp add: updateVersion_not_found)
next
  case (Some i)
  show ?thesis
    by (simp add: updateVersion_found [OF Some] storedIndex_eq map_of_putIndex)
qed

text \<open>
  C8. The claim: after each mutation that persists the index, \<open>lastUpdated\<close> is the time
  of that mutation. The code: saveVersion stores its clock reading, but deleteVersion and
  updateVersion read no clock and write the index back with the \<open>lastUpdated\<close> they read.
  After a save at time 1000, a later deleteVersion of that entry, and equally a later
  updateVersion, leave \<open>lastUpdated = 1000\<close>.
\<close>

theorem lastUpdated_only_set_by_save:
  \<open>lastUpdated (storedIndex (deleteVersion v t)) = lastUpdated (storedIndex v)
   \<and> lastUpdated (storedIndex (snd (updateVersion v t u))) = lastUpdated (storedIndex v)
   \<and> storedIndex (deleteVersion
        \<lparr>doc = NotJson ''a'',
         folder = FolderAt
           [(''version_1000_7.md'', TFile (NotJson ''a'')),
            (''versions.json'', TFile (IndexJson
              \<lparr>versions = [metaOf \<lparr>file_name = ''n.md'', file_path = ''n.md''\<rparr> 1000 None None],
               lastUpdated = 1000\<rparr>))]\<rparr> 1000)
      = \<lparr>versions = [], lastUpdated = 1000\<rparr>
   \<and> storedIndex (snd (updateVersion
        \<lparr>doc = NotJson ''a'',
         folder = FolderAt
           [(''version_1000_7.md'', TFile (NotJson ''a'')),
            (''versions.json'', TFile (IndexJson
              \<lparr>versions = [metaOf \<lparr>file_name = ''n.md'', file_path = ''n.md''\<rparr> 1000 None None],
               lastUpdated = 1000\<rparr>))]\<rparr> 1000 \<lparr>upd_name = Some ''v1'', upd_description = None\<rparr>))
      = \<lparr>versions = [metaOf \<lparr>file_name = ''n.md'', file_path = ''n.md''\<rparr> 1000 (Some ''v1'') None],
         lastUpdated = 1000\<rparr>\<close>
proof -
  have a: \<open>storedIndex (deleteVersion
        \<lparr>doc = NotJson ''a'',
         folder = FolderAt
           [(''version_1000_7.md'', TFile (NotJson ''a'')),
            (''versions.json'', TFile (IndexJson
              \<lparr>versions = [metaOf \<lparr>file_name = ''n.md'', file_path = ''n.md''\<rparr> 1000 None None],
               lastUpdated = 1000\<rparr>))]\<rparr> 1000)
      = \<lparr>versions = [], lastUpdated = 1000\<rparr>\<close>
    by code_simp
  have b: \<open>storedIndex (snd (updateVersion
        \<lparr>doc = NotJson ''a'',
         folder = FolderAt
           [(''version_1000_7.md'', TFile (NotJson ''a'')),
            (''versions.json'', TFile (IndexJson
              \<lparr>versions = [metaOf \<lparr>file_name = ''n.md'', file_path = ''n.md''\<rparr> 1000 None None],
               lastUpdated = 1000\<rparr>))]\<rparr> 1000 \<lparr>upd_name = Some ''v1'', upd_description = None\<rparr>))
      = \<lparr>versions = [metaOf \<lparr>file_name = ''n.md'', file_path = ''n.md''\<rparr> 1000 (Some ''v1'') None],
         lastUpdated = 1000\<rparr>\<close>
    by code_simp
  show ?thesis
    using a b lastUpdated_deleteVersion [of v t] lastUpdated_updateVersion [of v t u]
    by (intro conjI)
qed

subsection \<open>C10: deleteVersion\<close>

lemma deleteFirst_first:
  "encodes t c \<Longrightarrow> \<forall>x\<in>set pre. \<not> encodes t x \<Longrightarrow> deleteFirst t (pre @ c # post) = pre @ post"
  by (induction pre) auto

lemma deleteFirst_none: "\<forall>x\<in>set cs. \<not> encodes t x \<Longrightarrow> deleteFirst t cs = cs"
  by (induction cs) auto

lemma filter_deleteFirst:
  "filter (\<lambda>c. fst c \<noteq> indexName) (deleteFirst t cs)
   = deleteFirst t (filter (\<lambda>c. fst c \<noteq> indexName) cs)"
proof (induction cs)
  case Nil
  then show ?case by simp
next
  case (Cons c cs)
  have "encodes t c \<Longrightarrow> fst c \<noteq> indexName"
    using not_encodes_index [of t "snd c"] by (cases c) auto
  with Cons show ?case by auto
qed

lemma contentFiles_deleteVersion:
  assumes "indexReadable v" and "folder v \<noteq> FileAt" and "getChild v indexName \<noteq> Some TFolder"
  shows "contentFiles (deleteVersion v t) = deleteFirst t (contentFiles v)"
  using assms
  by (simp add: deleteVersion_char contentFiles_def filter_deleteFirst filter_putIndex)

text \<open>
  C10. deleteVersion removes from the index every entry whose timestamp is t. When
  readVersionIndex returns an index and that index can be written (the folder path is
  not a file and the index path is not a folder), it deletes from the version folder
  exactly the first child, in listing order, whose name encodes t, and no other child:
  later children that encode the same timestamp stay; with no such child, no content
  file is deleted. In every other case the error is caught before the loop over the
  children, and the vault is left as it was: no file is deleted at all. The document is
  untouched.
\<close>

theorem deleteVersion_deletes_first_file_only:
  "versions (storedIndex (deleteVersion v t))
     = filter (\<lambda>m. timestamp m \<noteq> t) (versions (storedIndex v))
   \<and> doc (deleteVersion v t) = doc v
   \<and> (indexReadable v \<and> folder v \<noteq> FileAt \<and> getChild v indexName \<noteq> Some TFolder
        \<and> contentFiles v = pre @ c # post \<and> encodes t c \<and> (\<forall>x\<in>set pre. \<not> encodes t x)
       \<longrightarrow> contentFiles (deleteVersion v t) = pre @ post)
   \<and> (indexReadable v \<and> folder v \<noteq> FileAt \<and> getChild v indexName \<noteq> Some TFolder
        \<and> (\<forall>x\<in>set (contentFiles v). \<not> encodes t x)
       \<longrightarrow> contentFiles (deleteVersion v t) = contentFiles v)
   \<and> (\<not> indexReadable v \<or> folder v = FileAt \<or> getChild v indexName = Some TFolder
       \<longrightarrow> deleteVersion v t = v)"
proof (intro conjI impI)
  show "versions (storedIndex (deleteVersion v t))
     = filter (\<lambda>m. timestamp m \<noteq> t) (versions (storedIndex v))"
    by (simp add: readVersionIndex_deleteVersion dropTimestamp_def)
  show "doc (deleteVersion v t) = doc v"
    by (simp add: deleteVersion_char)
next
  assume p: "indexReadable v \<and> folder v \<noteq> FileAt \<and> getChild v indexName \<noteq> Some TFolder
        \<and> contentFiles v = pre @ c # post \<and> encodes t c \<and> (\<forall>x\<in>set pre. \<not> encodes t x)"
  then have "contentFiles (deleteVersion v t) = deleteFirst t (contentFiles v)"
    by (simp add: contentFiles_deleteVersion)
  with p show "contentFiles (deleteVersion v t) = pre @ post"
    by (simp add: deleteFirst_first)
next
  assume p: "indexReadable v \<and> folder v \<noteq> FileAt \<and> getChild v indexName \<noteq> Some TFolder
        \<and> (\<forall>x\<in>set (contentFiles v). \<not> encodes t x)"
  then have "contentFiles (deleteVersion v t) = deleteFirst t (contentFiles v)"
    by (simp add: contentFiles_deleteVersion)
  with p show "contentFiles (deleteVersion v t) = contentFiles v"
    by (simp add: deleteFirst_none)
next
  assume "\<not> indexReadable v \<or> folder v = FileAt \<or> getChild v indexName = Some TFolder"
  then show "deleteVersion v t = v"
    by (simp add: deleteVersion_char)
qed

theorem deleteVersion_deletes_first_file_only_witness:
  \<open>contentFiles (deleteVersion
      \<lparr>doc = NotJson ''a'',
       folder = FolderAt
         [(''version_5_1.md'', TFile (NotJson ''x'')),
          (''versions.json'', TFile (IndexJson
            \<lparr>versions = [metaOf \<lparr>file_name = ''n.md'', file_path = ''n.md''\<rparr> 6 None None,
                           metaOf \<lparr>file_name = ''n.md'', file_path = ''n.md''\<rparr> 5 (Some ''p'') None,
                           metaOf \<lparr>file_name = ''n.md'', file_path = ''n.md''\<rparr> 5 (Some ''q'') None],
             lastUpdated = 6\<rparr>)),
          (''version_5_2.md'', TFile (NotJson ''y'')),
          (''version_6_3.md'', TFile (NotJson ''z''))]\<rparr> 5)
     = [(''version_5_2.md'', TFile (NotJson ''y'')), (''version_6_3.md'', TFile (NotJson ''z''))]
   \<and> versions (storedIndex (deleteVersion
      \<lparr>doc = NotJson ''a'',
       folder = FolderAt
         [(''version_5_1.md'', TFile (NotJson ''x'')),
          (''versions.json'', TFile (IndexJson
            \<lparr>versions = [metaOf \<lparr>file_name = ''n.md'', file_path = ''n.md''\<rparr> 6 None None,
                           metaOf \<lparr>file_name = ''n.md'', file_path = ''n.md''\<rparr> 5 (Some ''p'') None,
                           metaOf \<lparr>file_name = ''n.md'', file_path = ''n.md''\<rparr> 5 (Some ''q'') None],
             lastUpdated = 6\<rparr>)),
          (''version_5_2.md'', TFile (NotJson ''y'')),
          (''version_6_3.md'', TFile (NotJson ''z''))]\<rparr> 5))
     = [metaOf \<lparr>file_name = ''n.md'', file_path = ''n.md''\<rparr> 6 None None]
   \<and> deleteVersion
      \<lparr>doc = NotJson ''a'',
       folder = FolderAt
         [(''version_5_1.md'', TFile (NotJson ''x'')),
          (''versions.json'', TFile NullJson)]\<rparr> 5
     = \<lparr>doc = NotJson ''a'',
       folder = FolderAt
         [(''version_5_1.md'', TFile (NotJson ''x'')),
          (''versions.json'', TFile NullJson)]\<rparr>\<close>
proof -
  let ?n = \<open>\<lparr>doc = NotJson ''a'',
       folder = FolderAt
         [(''version_5_1.md'', TFile (NotJson ''x'')),
          (''versions.json'', TFile NullJson)]\<rparr>\<close>
  have u: \<open>\<not> indexReadable ?n\<close>
    by (simp add: indexReadable_eq getChild_def children_def indexName_def)
  from u deleteVersion_deletes_first_file_only [of ?n 5]
  have n: \<open>deleteVersion ?n 5 = ?n\<close>
    by blast
  let ?idx = \<open>\<lparr>versions = [metaOf \<lparr>file_name = ''n.md'', file_path = ''n.md''\<rparr> 6 None None,
                           metaOf \<lparr>file_name = ''n.md'', file_path = ''n.md''\<rparr> 5 (Some ''p'') None,
                           metaOf \<lparr>file_name = ''n.md'', file_path = ''n.md''\<rparr> 5 (Some ''q'') None],
             lastUpdated = 6\<rparr>\<close>
  let ?c = \<open>(''version_5_1.md'', TFile (NotJson ''x''))\<close>
  let ?post = \<open>[(''version_5_2.md'', TFile (NotJson ''y'')), (''version_6_3.md'', TFile (NotJson ''z''))]\<close>
  let ?v = \<open>\<lparr>doc = NotJson ''a'',
       folder = FolderAt (?c # (''versions.json'', TFile (IndexJson ?idx)) # ?post)\<rparr>\<close>
  have w: \<open>indexReadable ?v \<and> folder ?v \<noteq> FileAt \<and> getChild ?v indexName \<noteq> Some TFolder\<close>
    by (simp add: indexReadable_eq getChild_def children_def indexName_def)
  have cf: \<open>contentFiles ?v = [] @ ?c # ?post\<close>
    by (simp add: contentFiles_def children_def indexName_def)
  have en: \<open>encodes 5 ?c\<close>
    by code_simp
  have r: \<open>versions (storedIndex ?v) = versions ?idx\<close>
    by (simp add: storedIndex_eq getChild_def children_def indexName_def)
  note T = deleteVersion_deletes_first_file_only [of ?v 5 \<open>[]\<close> ?c ?post]
  from T have i: \<open>versions (storedIndex (deleteVersion ?v 5))
     = filter (\<lambda>m. timestamp m \<noteq> 5) (versions (storedIndex ?v))\<close>
    by (rule conjunct1)
  from T have \<open>indexReadable ?v \<and> folder ?v \<noteq> FileAt \<and> getChild ?v indexName \<noteq> Some TFolder
        \<and> contentFiles ?v = [] @ ?c # ?post \<and> encodes 5 ?c \<and> (\<forall>x\<in>set []. \<not> encodes 5 x)
       \<longrightarrow> contentFiles (deleteVersion ?v 5) = [] @ ?post\<close>
    by (elim conjE)
  with w cf en have \<open>contentFiles (deleteVersion ?v 5) = [] @ ?post\<close>
    by simp
  with i r n show ?thesis by (simp add: metaOf_def)
qed

end
